theory Spec2Isabelle
  imports Complex_Main "HOL-Library.AList"
begin

section \<open>Sampling procedures of the GVP-Transformer inverse folding model\<close>

text \<open>
  A shallow embedding of the three sampling methods of \<^verbatim>\<open>GVPTransformerModel\<close> in
  \<^verbatim>\<open>esm/inverse_folding/gvp_transformer.py\<close>: \<^verbatim>\<open>sample\<close>, \<^verbatim>\<open>sample_batch\<close> and
  \<^verbatim>\<open>sample_batch2\<close>.

  Conventions of the embedding.
  \<^item> A Python exception is a value of type \<open>error\<close>; a method returns
    \<open>(error + result) \<times> state\<close>: the state reached is kept when an exception is raised,
    as the side effects of a Python call are.
  \<^item> The token buffer \<^verbatim>\<open>sampled_tokens\<close> (an int64 tensor of two dimensions) is a list of
    rows, \<open>int list list\<close>. The decoder's logits (three dimensions, batch by vocabulary
    by time: \<^verbatim>\<open>sample\<close> takes \<^verbatim>\<open>logits[0]\<close>, transposes its two dimensions and hands the result
    to \<^verbatim>\<open>torch.multinomial\<close>, which takes at most two) are nested lists of depth three.
    Tensors are rectangular; ragged nested lists represent no tensor.
  \<^item> Floating point numbers are not modelled. The scalar type of the logits is a type
    variable \<open>'a\<close>, and the numeric library functions are parameters: division of a
    scalar by the temperature, softmax of one vector, and one multinomial draw from one
    vector of weights.
  \<^item> The vocabulary, the batch converter, the structure encoder and the decoder are not
    part of the file; they are the fields of a record of collaborators.
  \<^item> The dictionary \<^verbatim>\<open>incremental_state\<close> is an association list, the random generator
    of torch a value of a type variable \<open>'r\<close>, and every call of the encoder and of the
    decoder is recorded in a log of calls kept in the state (a ghost field: the
    program has no such log).
  \<^item> The debugging flags \<^verbatim>\<open>flag1\<close> .. \<^verbatim>\<open>flag4\<close> only print and are left out, and
    \<^verbatim>\<open>tensor.to(device)\<close> and \<^verbatim>\<open>tensor.clone()\<close> return the same values.
\<close>

subsection \<open>Exceptions, tensors of tokens\<close>

datatype error =
    LookupError      \<comment> \<open>raised by the vocabulary\<close>
  | IndexError       \<comment> \<open>an index out of range\<close>
  | KeyError         \<comment> \<open>a key missing from a dict\<close>
  | NameError        \<comment> \<open>a local variable read before any assignment\<close>
  | RuntimeError     \<comment> \<open>raised by torch: shapes that do not fit, a tensor with no truth value\<close>
  | CollaboratorError  \<comment> \<open>any other exception of a collaborator\<close>

type_synonym tokens = "int list list"

text \<open>\<^verbatim>\<open>t[r, c]\<close> and \<^verbatim>\<open>t[r, c] = v\<close> on a tensor of two dimensions.\<close>

definition get_item :: "tokens \<Rightarrow> nat \<Rightarrow> nat \<Rightarrow> error + int" where
  "get_item t r c =
     (if r < length t \<and> c < length (t ! r) then Inr (t ! r ! c) else Inl IndexError)"

definition set_item :: "tokens \<Rightarrow> nat \<Rightarrow> nat \<Rightarrow> int \<Rightarrow> error + tokens" where
  "set_item t r c v =
     (if r < length t \<and> c < length (t ! r) then Inr (t[r := (t ! r)[c := v]])
      else Inl IndexError)"

text \<open>
  \<^verbatim>\<open>t[:, c] = vals\<close> for a tensor \<open>vals\<close> of one dimension: the values are broadcast to
  the column, so there is one value per row, or one value for all rows.
\<close>

definition set_column :: "tokens \<Rightarrow> nat \<Rightarrow> int list \<Rightarrow> error + tokens" where
  "set_column t c vals =
     (if \<not> list_all (\<lambda>row. c < length row) t then Inl IndexError
      else if length vals = length t then Inr (map2 (\<lambda>row v. row[c := v]) t vals)
      else if length vals = 1 then Inr (map (\<lambda>row. row[c := hd vals]) t)
      else Inl RuntimeError)"

text \<open>
  \<^verbatim>\<open>t[j:j+1, c]\<close>: a tensor of one dimension, with one element when row \<open>j\<close> exists and
  none otherwise (a slice out of range is empty and raises nothing).
\<close>

definition get_slice :: "tokens \<Rightarrow> nat \<Rightarrow> nat \<Rightarrow> error + int list" where
  "get_slice t j c =
     (if j < length t then (if c < length (t ! j) then Inr [t ! j ! c] else Inl IndexError)
      else Inr [])"

text \<open>\<^verbatim>\<open>t[j:j+1, c] = vals\<close>: the values are broadcast to the slice.\<close>

definition set_slice :: "tokens \<Rightarrow> nat \<Rightarrow> nat \<Rightarrow> int list \<Rightarrow> error + tokens" where
  "set_slice t j c vals =
     (if j < length t then
        (if \<not> c < length (t ! j) then Inl IndexError
         else if length vals = 1 then Inr (t[j := (t ! j)[c := hd vals]])
         else Inl RuntimeError)
      else if length vals \<le> 1 then Inr t else Inl RuntimeError)"

text \<open>\<^verbatim>\<open>t[:, j, :]\<close>: entry \<open>j\<close> of every element of the first dimension.\<close>

definition select_dim1 :: "'a list list list \<Rightarrow> nat \<Rightarrow> error + 'a list list" where
  "select_dim1 t j =
     (if list_all (\<lambda>m. j < length m) t then Inr (map (\<lambda>m. m ! j) t) else Inl IndexError)"

text \<open>\<^verbatim>\<open>if device:\<close> for \<^verbatim>\<open>None\<close> or a device name.\<close>

definition truthy :: "string option \<Rightarrow> bool" where
  "truthy device = (case device of None \<Rightarrow> False | Some d \<Rightarrow> d \<noteq> [])"

subsection \<open>Collaborators and state\<close>

type_synonym 'v cache = "(string \<times> 'v) list"
type_synonym 'e encoder_out = "(string \<times> 'e) list"
type_synonym coords = "real list list list"

text \<open>
  The collaborators. \<open>get_idx\<close> and \<open>get_tok\<close> are the vocabulary
  (\<^verbatim>\<open>self.decoder.dictionary\<close>; \<open>None\<close> when the lookup raises). The four functions on the
  values of the encoder's output stand for the indexing expressions the methods apply to
  them: \<open>item0_slice1 v s\<close> for \<^verbatim>\<open>[v[0][:, s:s+1, :]]\<close>, \<open>item0_slice0 v s\<close> for
  \<^verbatim>\<open>[v[0][s:s+1, :]]\<close>, \<open>slice0 v s\<close> for \<^verbatim>\<open>v[s:s+1]\<close> and \<open>item0 v\<close> for \<^verbatim>\<open>[v[0]]\<close>.
\<close>

record ('a, 'b, 'e, 'v, 'r) collaborators =
  get_idx :: "string \<Rightarrow> int option"
  get_tok :: "int \<Rightarrow> string option"
  batch_converter :: "(coords \<times> real list option) list \<Rightarrow> string option \<Rightarrow> error + 'b"
  encoder :: "'b \<Rightarrow> error + 'e encoder_out"
  decoder :: "tokens \<Rightarrow> 'e encoder_out \<Rightarrow> 'v cache \<Rightarrow> (error + 'a list list list) \<times> 'v cache"
  true_divide :: "'a \<Rightarrow> real \<Rightarrow> 'a"
  softmax_row :: "'a list \<Rightarrow> 'a list"
  multinomial_row :: "'a list \<Rightarrow> 'r \<Rightarrow> (error + nat) \<times> 'r"
  item0_slice1 :: "'e \<Rightarrow> nat \<Rightarrow> error + 'e"
  item0_slice0 :: "'e \<Rightarrow> nat \<Rightarrow> error + 'e"
  slice0 :: "'e \<Rightarrow> nat \<Rightarrow> error + 'e"
  item0 :: "'e \<Rightarrow> error + 'e"

datatype ('e, 'v) event =
    is_EncoderCall: EncoderCall
  | is_DecoderCall: DecoderCall (prefix: tokens) (enc_arg: "'e encoder_out")
      (cache_in: "'v cache") (cache_out: "'v cache")

record ('e, 'v, 'r) state =
  incremental_state :: "'v cache"
  rng :: 'r
  calls :: "('e, 'v) event list"

text \<open>The state in which a method starts: \<^verbatim>\<open>incremental_state = dict()\<close>.\<close>

definition init_state :: "'r \<Rightarrow> ('e, 'v, 'r) state" where
  "init_state r = \<lparr>incremental_state = [], rng = r, calls = []\<rparr>"

definition call_encoder ::
  "('a, 'b, 'e, 'v, 'r) collaborators \<Rightarrow> 'b \<Rightarrow> ('e, 'v, 'r) state
   \<Rightarrow> (error + 'e encoder_out) \<times> ('e, 'v, 'r) state" where
  "call_encoder env batch st = (encoder env batch, st\<lparr>calls := calls st @ [EncoderCall]\<rparr>)"

definition call_decoder ::
  "('a, 'b, 'e, 'v, 'r) collaborators \<Rightarrow> tokens \<Rightarrow> 'e encoder_out \<Rightarrow> ('e, 'v, 'r) state
   \<Rightarrow> (error + 'a list list list) \<times> ('e, 'v, 'r) state" where
  "call_decoder env toks eo st =
     (case decoder env toks eo (incremental_state st) of
        (res, c') \<Rightarrow>
          (res, st\<lparr>incremental_state := c',
                   calls := calls st @ [DecoderCall toks eo (incremental_state st) c']\<rparr>))"

text \<open>
  \<^verbatim>\<open>torch.multinomial(probs, 1).squeeze(-1)\<close> for \<open>probs\<close> of two dimensions: one draw
  for every row, so the result has as many elements as \<open>probs\<close> has rows.
\<close>

fun multinomial ::
  "('a, 'b, 'e, 'v, 'r) collaborators \<Rightarrow> 'a list list \<Rightarrow> ('e, 'v, 'r) state
   \<Rightarrow> (error + nat list) \<times> ('e, 'v, 'r) state" where
  "multinomial env [] st = (Inr [], st)"
| "multinomial env (p # ps) st =
     (case multinomial_row env p (rng st) of
        (Inl e, r') \<Rightarrow> (Inl e, st\<lparr>rng := r'\<rparr>)
      | (Inr k, r') \<Rightarrow>
          (case multinomial env ps (st\<lparr>rng := r'\<rparr>) of
             (Inl e, st') \<Rightarrow> (Inl e, st')
           | (Inr ks, st') \<Rightarrow> (Inr (k # ks), st')))"

text \<open>A \<^verbatim>\<open>for\<close> loop over a list of indices, stopped by the first exception.\<close>

fun for_loop ::
  "'i list \<Rightarrow> ('i \<Rightarrow> 'x \<Rightarrow> 's \<Rightarrow> (error + 'x) \<times> 's) \<Rightarrow> 'x \<Rightarrow> 's \<Rightarrow> (error + 'x) \<times> 's" where
  "for_loop [] body x s = (Inr x, s)"
| "for_loop (i # is) body x s =
     (case body i x s of
        (Inl e, s') \<Rightarrow> (Inl e, s')
      | (Inr x', s') \<Rightarrow> for_loop is body x' s')"

subsection \<open>The token buffer\<close>

text \<open>
  Lines 116-117 (and 177-178, 256-257): the symbols of the partial sequence are looked
  up and written at the columns \<open>i + 1\<close>, in order.
\<close>

fun write_partial ::
  "('a, 'b, 'e, 'v, 'r) collaborators \<Rightarrow> nat \<Rightarrow> string list \<Rightarrow> tokens \<Rightarrow> error + tokens" where
  "write_partial env i [] toks = Inr toks"
| "write_partial env i (c # cs) toks =
     (case get_idx env c of
        None \<Rightarrow> Inl LookupError
      | Some k \<Rightarrow>
          (case set_item toks 0 (i + 1) k of
             Inl e \<Rightarrow> Inl e
           | Inr toks' \<Rightarrow> write_partial env (i + 1) cs toks'))"

text \<open>
  Lines 112-117 (and 173-178, 252-257): the buffer of one row and \<open>1 + L\<close> columns,
  filled with the mask index, with the start token at column 0. The result is the mask
  index and the buffer.
\<close>

definition init_tokens ::
  "('a, 'b, 'e, 'v, 'r) collaborators \<Rightarrow> nat \<Rightarrow> string list option \<Rightarrow> error + (int \<times> tokens)" where
  "init_tokens env L partial_seq =
     (case get_idx env ''<mask>'' of
        None \<Rightarrow> Inl LookupError
      | Some mask_idx \<Rightarrow>
          (case get_idx env ''<cath>'' of
             None \<Rightarrow> Inl LookupError
           | Some cath \<Rightarrow>
               (case set_item [replicate (1 + L) mask_idx] 0 0 cath of
                  Inl e \<Rightarrow> Inl e
                | Inr toks \<Rightarrow>
                    (case partial_seq of
                       None \<Rightarrow> Inr (mask_idx, toks)
                     | Some ps \<Rightarrow>
                         (case write_partial env 0 ps toks of
                            Inl e \<Rightarrow> Inl e
                          | Inr toks' \<Rightarrow> Inr (mask_idx, toks'))))))"

text \<open>
  Lines 147-150: \<^verbatim>\<open>''.join([get_tok(a) for a in sampled_tokens[r, 1:]])\<close>.
  \<open>symbols_of\<close> is the list that is joined.
\<close>

definition symbols_of ::
  "('a, 'b, 'e, 'v, 'r) collaborators \<Rightarrow> int list \<Rightarrow> error + string list" where
  "symbols_of env row =
     (if list_all (\<lambda>a. get_tok env a \<noteq> None) row then Inr (map (\<lambda>a. the (get_tok env a)) row)
      else Inl LookupError)"

definition row_to_string ::
  "('a, 'b, 'e, 'v, 'r) collaborators \<Rightarrow> tokens \<Rightarrow> nat \<Rightarrow> error + string" where
  "row_to_string env toks r =
     (if r < length toks then
        (case symbols_of env (drop 1 (toks ! r)) of
           Inl e \<Rightarrow> Inl e
         | Inr syms \<Rightarrow> Inr (concat syms))
      else Inl IndexError)"

subsection \<open>sample\<close>

text \<open>
  Lines 142-144: \<^verbatim>\<open>logits[0].transpose(0, 1)\<close>, divided by the temperature, then softmax
  over the last dimension.
\<close>

definition sample_probs ::
  "('a, 'b, 'e, 'v, 'r) collaborators \<Rightarrow> 'a list list list \<Rightarrow> real \<Rightarrow> error + 'a list list" where
  "sample_probs env logits temperature =
     (case logits of
        [] \<Rightarrow> Inl IndexError
      | l0 # _ \<Rightarrow>
          Inr (map (softmax_row env)
                (map (map (\<lambda>x. true_divide env x temperature)) (transpose l0))))"

text \<open>Lines 137-146 (and 213-222): one step of the decoding loop.\<close>

definition sample_step ::
  "('a, 'b, 'e, 'v, 'r) collaborators \<Rightarrow> 'e encoder_out \<Rightarrow> real \<Rightarrow> int \<Rightarrow> nat \<Rightarrow> tokens
   \<Rightarrow> ('e, 'v, 'r) state \<Rightarrow> (error + tokens) \<times> ('e, 'v, 'r) state" where
  "sample_step env eo temperature mask_idx i toks st =
     (case call_decoder env (map (take i) toks) eo st of
        (Inl e, st1) \<Rightarrow> (Inl e, st1)
      | (Inr logits, st1) \<Rightarrow>
          (case sample_probs env logits temperature of
             Inl e \<Rightarrow> (Inl e, st1)
           | Inr probs \<Rightarrow>
               (case get_item toks 0 i of
                  Inl e \<Rightarrow> (Inl e, st1)
                | Inr t \<Rightarrow>
                    if t = mask_idx then
                      (case multinomial env probs st1 of
                         (Inl e, st2) \<Rightarrow> (Inl e, st2)
                       | (Inr draws, st2) \<Rightarrow>
                           (case set_column toks i (map int draws) of
                              Inl e \<Rightarrow> (Inl e, st2)
                            | Inr toks' \<Rightarrow> (Inr toks', st2)))
                    else (Inr toks, st1))))"

text \<open>Lines 136-150 (and 212-224): the decoding loop and the conversion to a string.\<close>

definition decode ::
  "('a, 'b, 'e, 'v, 'r) collaborators \<Rightarrow> 'e encoder_out \<Rightarrow> real \<Rightarrow> int \<Rightarrow> nat \<Rightarrow> tokens
   \<Rightarrow> ('e, 'v, 'r) state \<Rightarrow> (error + string) \<times> ('e, 'v, 'r) state" where
  "decode env eo temperature mask_idx L toks st =
     (case for_loop [1..<L + 1] (sample_step env eo temperature mask_idx) toks st of
        (Inl e, st') \<Rightarrow> (Inl e, st')
      | (Inr toks', st') \<Rightarrow> (row_to_string env toks' 0, st'))"

definition sample ::
  "('a, 'b, 'e, 'v, 'r) collaborators \<Rightarrow> coords \<Rightarrow> string list option \<Rightarrow> real
   \<Rightarrow> real list option \<Rightarrow> string option \<Rightarrow> 'r \<Rightarrow> (error + string) \<times> ('e, 'v, 'r) state" where
  "sample env coords partial_seq temperature confidence device r =
     (let L = length coords in
      case batch_converter env [(coords, confidence)] device of
        Inl e \<Rightarrow> (Inl e, init_state r)
      | Inr batch \<Rightarrow>
          (case init_tokens env L partial_seq of
             Inl e \<Rightarrow> (Inl e, init_state r)
           | Inr (mask_idx, toks) \<Rightarrow>
               (case call_encoder env batch (init_state r) of
                  (Inl e, st) \<Rightarrow> (Inl e, st)
                | (Inr encoder_out, st) \<Rightarrow>
                    decode env encoder_out temperature mask_idx L toks st)))"

subsection \<open>sample_batch\<close>

text \<open>
  Lines 199-208: the encoder's output for one sample. The two keys
  \<^verbatim>\<open>'encoder_out'\<close> and \<^verbatim>\<open>'encoder_padding_mask'\<close> are read first (a missing key raises);
  every other key is sliced, and keeps its value when slicing raises (the bare
  \<^verbatim>\<open>except\<close>). The keys of a dict are distinct.
\<close>

definition slice_encoder_out ::
  "('a, 'b, 'e, 'v, 'r) collaborators \<Rightarrow> 'e encoder_out \<Rightarrow> nat \<Rightarrow> error + 'e encoder_out" where
  "slice_encoder_out env all_encoder_out sample_idx =
     (case map_of all_encoder_out ''encoder_out'' of
        None \<Rightarrow> Inl KeyError
      | Some v \<Rightarrow>
          (case item0_slice1 env v sample_idx of
             Inl e \<Rightarrow> Inl e
           | Inr v1 \<Rightarrow>
               (case map_of all_encoder_out ''encoder_padding_mask'' of
                  None \<Rightarrow> Inl KeyError
                | Some m \<Rightarrow>
                    (case item0_slice0 env m sample_idx of
                       Inl e \<Rightarrow> Inl e
                     | Inr m1 \<Rightarrow>
                         Inr (fold
                               (\<lambda>(key, w) eo.
                                  if key \<noteq> ''encoder_out'' \<and> key \<noteq> ''encoder_padding_mask''
                                  then AList.update key
                                         (case slice0 env w sample_idx of
                                            Inl _ \<Rightarrow> w
                                          | Inr w' \<Rightarrow> w') eo
                                  else eo)
                               all_encoder_out
                               [(''encoder_out'', v1), (''encoder_padding_mask'', m1)])))))"

text \<open>
  Lines 196-225: the body of the loop over the samples. \<open>all_sampled_tokens\<close> is
  \<open>None\<close> when the local variable was never assigned (it is assigned at line 190 only,
  under \<^verbatim>\<open>if device:\<close>).
\<close>

definition batch_sample ::
  "('a, 'b, 'e, 'v, 'r) collaborators \<Rightarrow> 'e encoder_out \<Rightarrow> tokens list option \<Rightarrow> real \<Rightarrow> int
   \<Rightarrow> nat \<Rightarrow> nat \<Rightarrow> string list \<Rightarrow> ('e, 'v, 'r) state
   \<Rightarrow> (error + string list) \<times> ('e, 'v, 'r) state" where
  "batch_sample env all_encoder_out all_sampled_tokens temperature mask_idx L sample_idx
      all_seqs st =
     (case all_sampled_tokens of
        None \<Rightarrow> (Inl NameError, st)
      | Some ts \<Rightarrow>
          if \<not> sample_idx < length ts then (Inl IndexError, st)
          else
            (case slice_encoder_out env all_encoder_out sample_idx of
               Inl e \<Rightarrow> (Inl e, st)
             | Inr encoder_out \<Rightarrow>
                 (case decode env encoder_out temperature mask_idx L (ts ! sample_idx) st of
                    (Inl e, st') \<Rightarrow> (Inl e, st')
                  | (Inr sampled_seq, st') \<Rightarrow> (Inr (all_seqs @ [sampled_seq]), st'))))"

definition sample_batch ::
  "('a, 'b, 'e, 'v, 'r) collaborators \<Rightarrow> coords \<Rightarrow> int \<Rightarrow> string list option \<Rightarrow> real
   \<Rightarrow> real list option \<Rightarrow> string option \<Rightarrow> 'r
   \<Rightarrow> (error + string list) \<times> ('e, 'v, 'r) state" where
  "sample_batch env coords num_samples partial_seq temperature confidence device r =
     (let L = length coords in
      case batch_converter env (replicate (nat num_samples) (coords, confidence)) device of
        Inl e \<Rightarrow> (Inl e, init_state r)
      | Inr batch \<Rightarrow>
          (case init_tokens env L partial_seq of
             Inl e \<Rightarrow> (Inl e, init_state r)
           | Inr (mask_idx, toks) \<Rightarrow>
               (case call_encoder env batch (init_state r) of
                  (Inl e, st) \<Rightarrow> (Inl e, st)
                | (Inr all_encoder_out, st) \<Rightarrow>
                    for_loop [0..<nat num_samples]
                      (batch_sample env all_encoder_out
                         (if truthy device then Some (replicate (nat num_samples) toks)
                          else None)
                         temperature mask_idx L)
                      [] st)))"

subsection \<open>sample_batch2\<close>

text \<open>Lines 277-285: the encoder's output handed to the decoder.\<close>

definition repack_encoder_out ::
  "('a, 'b, 'e, 'v, 'r) collaborators \<Rightarrow> 'e encoder_out \<Rightarrow> error + 'e encoder_out" where
  "repack_encoder_out env all_encoder_out =
     (case map_of all_encoder_out ''encoder_out'' of
        None \<Rightarrow> Inl KeyError
      | Some v \<Rightarrow>
          (case item0 env v of
             Inl e \<Rightarrow> Inl e
           | Inr v1 \<Rightarrow>
               (case map_of all_encoder_out ''encoder_padding_mask'' of
                  None \<Rightarrow> Inl KeyError
                | Some m \<Rightarrow>
                    (case item0 env m of
                       Inl e \<Rightarrow> Inl e
                     | Inr m1 \<Rightarrow>
                         Inr (fold
                               (\<lambda>(key, w) eo.
                                  if key \<noteq> ''encoder_out'' \<and> key \<noteq> ''encoder_padding_mask''
                                  then AList.update key w eo
                                  else eo)
                               all_encoder_out
                               [(''encoder_out'', v1), (''encoder_padding_mask'', m1)])))))"

text \<open>
  Line 271: \<^verbatim>\<open>sampled_tokens.repeat(num_samples, 1)\<close>, under \<^verbatim>\<open>if device:\<close>. Without a
  device the buffer keeps its one row.
\<close>

definition repeat_rows :: "string option \<Rightarrow> int \<Rightarrow> tokens \<Rightarrow> error + tokens" where
  "repeat_rows device num_samples toks =
     (if truthy device then
        (if num_samples < 0 then Inl RuntimeError
         else Inr (concat (replicate (nat num_samples) toks)))
      else Inr toks)"

text \<open>
  Lines 294-301: \<^verbatim>\<open>logits.transpose(0, 1)\<close> on the logits of three dimensions, divided by
  the temperature, then softmax over the last dimension.
\<close>

definition batch2_probs ::
  "('a, 'b, 'e, 'v, 'r) collaborators \<Rightarrow> 'a list list list \<Rightarrow> real \<Rightarrow> 'a list list list" where
  "batch2_probs env logits temperature =
     map (map (softmax_row env))
       (map (map (map (\<lambda>x. true_divide env x temperature))) (transpose logits))"

text \<open>
  Lines 319-321: the body of the loop over \<open>j\<close>. A tensor with no element has no truth
  value (\<^verbatim>\<open>if\<close> raises); line 320 prints a first draw, line 321 writes a second one.
\<close>

definition batch2_row ::
  "('a, 'b, 'e, 'v, 'r) collaborators \<Rightarrow> 'a list list list \<Rightarrow> int \<Rightarrow> nat \<Rightarrow> nat \<Rightarrow> tokens
   \<Rightarrow> ('e, 'v, 'r) state \<Rightarrow> (error + tokens) \<times> ('e, 'v, 'r) state" where
  "batch2_row env probs mask_idx i j toks st =
     (case get_slice toks j i of
        Inl e \<Rightarrow> (Inl e, st)
      | Inr [] \<Rightarrow> (Inl RuntimeError, st)
      | Inr (t # _) \<Rightarrow>
          if t = mask_idx then
            (case select_dim1 probs j of
               Inl e \<Rightarrow> (Inl e, st)
             | Inr pj \<Rightarrow>
                 (case multinomial env pj st of
                    (Inl e, st1) \<Rightarrow> (Inl e, st1)
                  | (Inr printed, st1) \<Rightarrow>
                      (case multinomial env pj st1 of
                         (Inl e, st2) \<Rightarrow> (Inl e, st2)
                       | (Inr draws, st2) \<Rightarrow>
                           (case set_slice toks j i (map int draws) of
                              Inl e \<Rightarrow> (Inl e, st2)
                            | Inr toks' \<Rightarrow> (Inr toks', st2)))))
          else (Inr toks, st))"

text \<open>
  Lines 289-321: one step of the decoding loop. After the transposition
  \<^verbatim>\<open>logits.shape[1]\<close> is the size of the first dimension of the decoder's result.
\<close>

definition batch2_step ::
  "('a, 'b, 'e, 'v, 'r) collaborators \<Rightarrow> 'e encoder_out \<Rightarrow> real \<Rightarrow> int \<Rightarrow> nat \<Rightarrow> tokens
   \<Rightarrow> ('e, 'v, 'r) state \<Rightarrow> (error + tokens) \<times> ('e, 'v, 'r) state" where
  "batch2_step env eo temperature mask_idx i toks st =
     (case call_decoder env (map (take i) toks) eo st of
        (Inl e, st1) \<Rightarrow> (Inl e, st1)
      | (Inr logits, st1) \<Rightarrow>
          for_loop [0..<length logits]
            (batch2_row env (batch2_probs env logits temperature) mask_idx i) toks st1)"

text \<open>Lines 325-329: the strings of the rows \<open>0 .. num_samples - 1\<close>.\<close>

fun collect_strings ::
  "('a, 'b, 'e, 'v, 'r) collaborators \<Rightarrow> tokens \<Rightarrow> nat list \<Rightarrow> string list
   \<Rightarrow> error + string list" where
  "collect_strings env toks [] all_seqs = Inr all_seqs"
| "collect_strings env toks (sample_idx # rest) all_seqs =
     (case row_to_string env toks sample_idx of
        Inl e \<Rightarrow> Inl e
      | Inr sampled_seq \<Rightarrow> collect_strings env toks rest (all_seqs @ [sampled_seq]))"

definition sample_batch2 ::
  "('a, 'b, 'e, 'v, 'r) collaborators \<Rightarrow> coords \<Rightarrow> int \<Rightarrow> string list option \<Rightarrow> real
   \<Rightarrow> real list option \<Rightarrow> string option \<Rightarrow> 'r
   \<Rightarrow> (error + string list) \<times> ('e, 'v, 'r) state" where
  "sample_batch2 env coords num_samples partial_seq temperature confidence device r =
     (let L = length coords in
      case batch_converter env (replicate (nat num_samples) (coords, confidence)) device of
        Inl e \<Rightarrow> (Inl e, init_state r)
      | Inr batch \<Rightarrow>
          (case init_tokens env L partial_seq of
             Inl e \<Rightarrow> (Inl e, init_state r)
           | Inr (mask_idx, toks) \<Rightarrow>
               (case call_encoder env batch (init_state r) of
                  (Inl e, st) \<Rightarrow> (Inl e, st)
                | (Inr all_encoder_out, st) \<Rightarrow>
                    (case repeat_rows device num_samples toks of
                       Inl e \<Rightarrow> (Inl e, st)
                     | Inr toks2 \<Rightarrow>
                         (case repack_encoder_out env all_encoder_out of
                            Inl e \<Rightarrow> (Inl e, st)
                          | Inr encoder_out \<Rightarrow>
                              (case for_loop [1..<L + 1]
                                      (batch2_step env encoder_out temperature mask_idx)
                                      toks2 st of
                                 (Inl e, st') \<Rightarrow> (Inl e, st')
                               | (Inr toks', st') \<Rightarrow>
                                   (collect_strings env toks' [0..<nat num_samples] [],
                                    st')))))))"

subsection \<open>A concrete vocabulary and concrete collaborators\<close>

text \<open>
  Modelled from the spec: the Vocabulary (\<^verbatim>\<open>esm.data.Alphabet\<close>) is not among the sources.
  The spec describes it as a bidirectional mapping between symbols and integer indices,
  \<^verbatim>\<open>index_of(symbol) -> Index\<close> failing with \<^verbatim>\<open>LookupError\<close> on an unknown symbol and
  \<^verbatim>\<open>symbol_of(index) -> Symbol\<close>, an index being an integer in \<open>[0, V)\<close>. Here it is a list
  of symbols, the index of a symbol being its first position in the list.
\<close>

fun index_of :: "string list \<Rightarrow> string \<Rightarrow> nat option" where
  "index_of [] c = None"
| "index_of (t # ts) c = (if t = c then Some 0 else map_option Suc (index_of ts c))"

definition vocab_get_idx :: "string list \<Rightarrow> string \<Rightarrow> int option" where
  "vocab_get_idx all_toks c = map_option int (index_of all_toks c)"

definition vocab_get_tok :: "string list \<Rightarrow> int \<Rightarrow> string option" where
  "vocab_get_tok all_toks k =
     (if 0 \<le> k \<and> nat k < length all_toks then Some (all_toks ! nat k) else None)"

text \<open>
  Collaborators on which the methods can be run: a vocabulary of four symbols; a
  converter that returns the size of the batch; an encoder whose output has the two keys
  the methods read; a decoder that returns logits 0 for every row of the prefix and every
  symbol (a tensor of shape rows by 4 by 1) and counts its calls in the cache; division
  and softmax on the reals (the temperature 0 is outside this model of division); and a
  random generator that is the list of the indices still to be drawn, a draw being
  refused when the index has no positive weight.
\<close>

definition test_vocab :: "string list" where
  "test_vocab = [''<cath>'', ''A'', ''C'', ''<mask>'']"

definition test_decoder ::
  "tokens \<Rightarrow> nat encoder_out \<Rightarrow> nat cache \<Rightarrow> (error + real list list list) \<times> nat cache" where
  "test_decoder toks eo c =
     (Inr (replicate (length toks) [[0], [0], [0], [0]]),
      AList.update ''calls'' (case map_of c ''calls'' of None \<Rightarrow> 1 | Some n \<Rightarrow> n + 1) c)"

definition test_softmax :: "real list \<Rightarrow> real list" where
  "test_softmax xs = map (\<lambda>x. exp x / sum_list (map exp xs)) xs"

definition test_multinomial :: "real list \<Rightarrow> nat list \<Rightarrow> (error + nat) \<times> nat list" where
  "test_multinomial p r =
     (case r of
        [] \<Rightarrow> (Inl RuntimeError, [])
      | k # ks \<Rightarrow> if k < length p \<and> 0 < p ! k then (Inr k, ks) else (Inl RuntimeError, ks))"

definition test_env :: "(real, nat, nat, nat, nat list) collaborators" where
  "test_env =
     \<lparr>get_idx = vocab_get_idx test_vocab,
      get_tok = vocab_get_tok test_vocab,
      batch_converter = (\<lambda>batch device. Inr (length batch)),
      encoder = (\<lambda>b. Inr [(''encoder_out'', b), (''encoder_padding_mask'', b)]),
      decoder = test_decoder,
      true_divide = (\<lambda>x t. x / t),
      softmax_row = test_softmax,
      multinomial_row = test_multinomial,
      item0_slice1 = (\<lambda>v s. Inr v),
      item0_slice0 = (\<lambda>v s. Inr v),
      slice0 = (\<lambda>v s. Inr v),
      item0 = (\<lambda>v. Inr v)\<rparr>"

definition test_coords :: "nat \<Rightarrow> coords" where
  "test_coords L = replicate L [[0, 0, 0], [0, 0, 0], [0, 0, 0]]"

subsection \<open>Predicates on buffers and on the log of calls\<close>

text \<open>
  \<open>keeps mask_idx t t'\<close>: the buffer \<open>t'\<close> has the shape of \<open>t\<close>, and every position of
  \<open>t\<close> that holds anything but the mask index holds the same value in \<open>t'\<close>.
\<close>

definition keeps :: "int \<Rightarrow> tokens \<Rightarrow> tokens \<Rightarrow> bool" where
  "keeps mask_idx t t' =
     list_all2 (\<lambda>row row'. list_all2 (\<lambda>a a'. a = mask_idx \<or> a' = a) row row') t t'"

text \<open>
  \<open>chain_from c evs\<close>: the decoder calls of the log form a chain that starts with the
  cache \<open>c\<close>, every call receiving the cache the call before it returned; the result is
  the cache returned by the last call.
\<close>

fun chain_from :: "'v cache \<Rightarrow> ('e, 'v) event list \<Rightarrow> 'v cache option" where
  "chain_from c [] = Some c"
| "chain_from c (EncoderCall # es) = chain_from c es"
| "chain_from c (DecoderCall p eo cin cout # es) =
     (if cin = c then chain_from cout es else None)"

definition decoder_calls :: "('e, 'v) event list \<Rightarrow> ('e, 'v) event list" where
  "decoder_calls evs = filter is_DecoderCall evs"

text \<open>
  \<open>encoder_first P evs\<close>: the log is empty, or it is one call of the encoder followed by
  calls of the decoder only, each with an encoder output that satisfies \<open>P\<close>.
\<close>

definition encoder_first :: "('e encoder_out \<Rightarrow> bool) \<Rightarrow> ('e, 'v) event list \<Rightarrow> bool" where
  "encoder_first P evs =
     (case evs of
        [] \<Rightarrow> True
      | e # es \<Rightarrow> is_EncoderCall e \<and> list_all (\<lambda>d. is_DecoderCall d \<and> P (enc_arg d)) es)"

text \<open>
  \<open>decoder_trace P s s'\<close>: from the state \<open>s\<close> to the state \<open>s'\<close> the log has grown by
  calls of the decoder only, each with an encoder output that satisfies \<open>P\<close>, and these
  calls form a chain from the cache of \<open>s\<close> to the cache of \<open>s'\<close>.
\<close>

definition decoder_trace ::
  "('e encoder_out \<Rightarrow> bool) \<Rightarrow> ('e, 'v, 'r) state \<Rightarrow> ('e, 'v, 'r) state \<Rightarrow> bool" where
  "decoder_trace P s s' =
     (\<exists>ds. calls s' = calls s @ ds
        \<and> list_all (\<lambda>d. is_DecoderCall d \<and> P (enc_arg d)) ds
        \<and> chain_from (incremental_state s) ds = Some (incremental_state s'))"

text \<open>The numbers of columns of the rows of the prefixes handed to the decoder, call by call.\<close>

definition prefix_widths :: "('e, 'v) event list \<Rightarrow> nat list list" where
  "prefix_widths evs = map (\<lambda>d. map length (prefix d)) (decoder_calls evs)"

subsection \<open>The buffers at the end of the decoding loops\<close>

text \<open>
  The methods return strings only. To speak of the buffer a string was made from, each
  method is given a companion that stops before the conversion to strings and returns
  the buffer (ghost functions: the methods themselves are the definitions above, and the
  properties below relate the two).

  \<open>decode_tokens\<close> is the loop of lines 136-146 (and 212-222), \<open>sample_tokens\<close> is
  \<^verbatim>\<open>sample\<close> up to line 146, \<open>sample_batch_tokens\<close> is \<^verbatim>\<open>sample_batch\<close> collecting the
  buffer of every sample along with its string, and \<open>sample_batch2_tokens\<close> is
  \<^verbatim>\<open>sample_batch2\<close> up to line 321.
\<close>

definition decode_tokens ::
  "('a, 'b, 'e, 'v, 'r) collaborators \<Rightarrow> 'e encoder_out \<Rightarrow> real \<Rightarrow> int \<Rightarrow> nat \<Rightarrow> tokens
   \<Rightarrow> ('e, 'v, 'r) state \<Rightarrow> (error + tokens) \<times> ('e, 'v, 'r) state" where
  "decode_tokens env eo temperature mask_idx L toks st =
     for_loop [1..<L + 1] (sample_step env eo temperature mask_idx) toks st"

definition sample_tokens ::
  "('a, 'b, 'e, 'v, 'r) collaborators \<Rightarrow> coords \<Rightarrow> string list option \<Rightarrow> real
   \<Rightarrow> real list option \<Rightarrow> string option \<Rightarrow> 'r \<Rightarrow> (error + tokens) \<times> ('e, 'v, 'r) state" where
  "sample_tokens env coords partial_seq temperature confidence device r =
     (let L = length coords in
      case batch_converter env [(coords, confidence)] device of
        Inl e \<Rightarrow> (Inl e, init_state r)
      | Inr batch \<Rightarrow>
          (case init_tokens env L partial_seq of
             Inl e \<Rightarrow> (Inl e, init_state r)
           | Inr (mask_idx, toks) \<Rightarrow>
               (case call_encoder env batch (init_state r) of
                  (Inl e, st) \<Rightarrow> (Inl e, st)
                | (Inr encoder_out, st) \<Rightarrow>
                    decode_tokens env encoder_out temperature mask_idx L toks st)))"

definition batch_sample_tokens ::
  "('a, 'b, 'e, 'v, 'r) collaborators \<Rightarrow> 'e encoder_out \<Rightarrow> tokens list option \<Rightarrow> real \<Rightarrow> int
   \<Rightarrow> nat \<Rightarrow> nat \<Rightarrow> tokens list \<Rightarrow> ('e, 'v, 'r) state
   \<Rightarrow> (error + tokens list) \<times> ('e, 'v, 'r) state" where
  "batch_sample_tokens env all_encoder_out all_sampled_tokens temperature mask_idx L sample_idx
      all_bufs st =
     (case all_sampled_tokens of
        None \<Rightarrow> (Inl NameError, st)
      | Some ts \<Rightarrow>
          if \<not> sample_idx < length ts then (Inl IndexError, st)
          else
            (case slice_encoder_out env all_encoder_out sample_idx of
               Inl e \<Rightarrow> (Inl e, st)
             | Inr encoder_out \<Rightarrow>
                 (case decode_tokens env encoder_out temperature mask_idx L (ts ! sample_idx) st of
                    (Inl e, st') \<Rightarrow> (Inl e, st')
                  | (Inr toks', st') \<Rightarrow>
                      (case row_to_string env toks' 0 of
                         Inl e \<Rightarrow> (Inl e, st')
                       | Inr sampled_seq \<Rightarrow> (Inr (all_bufs @ [toks']), st')))))"

definition sample_batch_tokens ::
  "('a, 'b, 'e, 'v, 'r) collaborators \<Rightarrow> coords \<Rightarrow> int \<Rightarrow> string list option \<Rightarrow> real
   \<Rightarrow> real list option \<Rightarrow> string option \<Rightarrow> 'r
   \<Rightarrow> (error + tokens list) \<times> ('e, 'v, 'r) state" where
  "sample_batch_tokens env coords num_samples partial_seq temperature confidence device r =
     (let L = length coords in
      case batch_converter env (replicate (nat num_samples) (coords, confidence)) device of
        Inl e \<Rightarrow> (Inl e, init_state r)
      | Inr batch \<Rightarrow>
          (case init_tokens env L partial_seq of
             Inl e \<Rightarrow> (Inl e, init_state r)
           | Inr (mask_idx, toks) \<Rightarrow>
               (case call_encoder env batch (init_state r) of
                  (Inl e, st) \<Rightarrow> (Inl e, st)
                | (Inr all_encoder_out, st) \<Rightarrow>
                    for_loop [0..<nat num_samples]
                      (batch_sample_tokens env all_encoder_out
                         (if truthy device then Some (replicate (nat num_samples) toks)
                          else None)
                         temperature mask_idx L)
                      [] st)))"

definition sample_batch2_tokens ::
  "('a, 'b, 'e, 'v, 'r) collaborators \<Rightarrow> coords \<Rightarrow> int \<Rightarrow> string list option \<Rightarrow> real
   \<Rightarrow> real list option \<Rightarrow> string option \<Rightarrow> 'r
   \<Rightarrow> (error + tokens) \<times> ('e, 'v, 'r) state" where
  "sample_batch2_tokens env coords num_samples partial_seq temperature confidence device r =
     (let L = length coords in
      case batch_converter env (replicate (nat num_samples) (coords, confidence)) device of
        Inl e \<Rightarrow> (Inl e, init_state r)
      | Inr batch \<Rightarrow>
          (case init_tokens env L partial_seq of
             Inl e \<Rightarrow> (Inl e, init_state r)
           | Inr (mask_idx, toks) \<Rightarrow>
               (case call_encoder env batch (init_state r) of
                  (Inl e, st) \<Rightarrow> (Inl e, st)
                | (Inr all_encoder_out, st) \<Rightarrow>
                    (case repeat_rows device num_samples toks of
                       Inl e \<Rightarrow> (Inl e, st)
                     | Inr toks2 \<Rightarrow>
                         (case repack_encoder_out env all_encoder_out of
                            Inl e \<Rightarrow> (Inl e, st)
                          | Inr encoder_out \<Rightarrow>
                              for_loop [1..<L + 1]
                                (batch2_step env encoder_out temperature mask_idx)
                                toks2 st)))))"

text \<open>
  \<open>symbol_at env row p c s\<close>: the string \<open>s\<close> is the concatenation of the symbols the
  vocabulary gives for the columns \<open>1, 2, ..\<close> of the row, and the symbol of column
  \<open>p + 1\<close> is \<open>c\<close>, standing in \<open>s\<close> right after the symbols of the columns \<open>1 .. p\<close>.
\<close>

definition symbol_at ::
  "('a, 'b, 'e, 'v, 'r) collaborators \<Rightarrow> int list \<Rightarrow> nat \<Rightarrow> string \<Rightarrow> string \<Rightarrow> bool" where
  "symbol_at env row p c s =
     (case symbols_of env (drop 1 row) of
        Inl e \<Rightarrow> False
      | Inr syms \<Rightarrow>
          p < length syms \<and> syms ! p = c \<and> s = concat syms
          \<and> s = concat (take p syms) @ c @ concat (drop (Suc p) syms))"


text \<open>
  \<open>same_outcome R a b\<close>: two runs end in the same state, both with the same exception or
  both with results related by \<open>R\<close>.
\<close>

definition same_outcome ::
  "('x \<Rightarrow> 'y \<Rightarrow> bool) \<Rightarrow> (error + 'x) \<times> 's \<Rightarrow> (error + 'y) \<times> 's \<Rightarrow> bool" where
  "same_outcome R a b =
     (snd a = snd b
      \<and> (case (fst a, fst b) of
            (Inl e, Inl e') \<Rightarrow> e = e'
          | (Inr x, Inr y) \<Rightarrow> R x y
          | _ \<Rightarrow> False))"

section \<open>Properties\<close>

text \<open>Unfolding the methods and the concrete collaborators on concrete inputs.\<close>

lemmas test_defs = test_env_def test_vocab_def test_decoder_def test_softmax_def
  test_multinomial_def test_coords_def vocab_get_idx_def vocab_get_tok_def

lemmas run_defs = sample_def decode_def sample_step_def sample_probs_def init_tokens_def
  init_state_def call_encoder_def call_decoder_def get_item_def set_item_def set_column_def
  row_to_string_def symbols_of_def truthy_def
  sample_batch_def batch_sample_def slice_encoder_out_def
  sample_batch2_def repack_encoder_out_def repeat_rows_def batch2_probs_def batch2_row_def
  batch2_step_def get_slice_def set_slice_def select_dim1_def

subsection \<open>Loops\<close>

lemma for_loop_success:
  assumes "for_loop is body x s = (Inr y, t)" and "P x s"
    and "\<And>i x s x' s'. i \<in> set is \<Longrightarrow> P x s \<Longrightarrow> body i x s = (Inr x', s') \<Longrightarrow> P x' s'"
  shows "P y t"
  using assms
proof (induction "is" arbitrary: x s)
  case Nil
  then show ?case by simp
next
  case (Cons i "is")
  from Cons.prems(1) obtain x' s' where b: "body i x s = (Inr x', s')"
    and r: "for_loop is body x' s' = (Inr y, t)"
    by (auto split: prod.splits sum.splits)
  have px: "P x' s'" using Cons.prems(3) [OF _ Cons.prems(2) b] by simp
  have step: "\<And>j x s x' s'. j \<in> set is \<Longrightarrow> P x s \<Longrightarrow> body j x s = (Inr x', s') \<Longrightarrow> P x' s'"
    using Cons.prems(3) by (meson list.set_intros(2))
  show ?case by (rule Cons.IH [OF r px step])
qed

lemma for_loop_trace:
  assumes "for_loop is body x s = (Inr y, t)" and "P x"
    and "\<And>i x s x' s'. i \<in> set is \<Longrightarrow> P x \<Longrightarrow> body i x s = (Inr x', s')
           \<Longrightarrow> P x' \<and> f s' = f s @ [g i]"
  shows "P y \<and> f t = f s @ map g is"
  using assms
proof (induction "is" arbitrary: x s)
  case Nil
  then show ?case by simp
next
  case (Cons i "is")
  from Cons.prems(1) obtain x' s' where b: "body i x s = (Inr x', s')"
    and r: "for_loop is body x' s' = (Inr y, t)"
    by (auto split: prod.splits sum.splits)
  have st: "P x' \<and> f s' = f s @ [g i]" using Cons.prems(3) [OF _ Cons.prems(2) b] by simp
  have step: "\<And>j x s x' s'. j \<in> set is \<Longrightarrow> P x \<Longrightarrow> body j x s = (Inr x', s')
      \<Longrightarrow> P x' \<and> f s' = f s @ [g j]"
    using Cons.prems(3) by (meson list.set_intros(2))
  have "P y \<and> f t = f s' @ map g is"
    using st by (intro Cons.IH [OF r _ step]) auto
  then show ?case using st by simp
qed

subsection \<open>The calls of a decoding step\<close>

lemma multinomial_frame':
  "multinomial env ps st = (res, st') \<Longrightarrow>
   incremental_state st' = incremental_state st \<and> calls st' = calls st"
proof (induction ps arbitrary: st res st')
  case Nil
  then show ?case by simp
next
  case (Cons p ps)
  show ?case
  proof (cases "multinomial_row env p (rng st)")
    case (Pair a r')
    show ?thesis
    proof (cases a)
      case (Inl e)
      then show ?thesis using Cons.prems Pair by auto
    next
      case (Inr k)
      obtain res2 st2 where m: "multinomial env ps (st\<lparr>rng := r'\<rparr>) = (res2, st2)"
        by (cases "multinomial env ps (st\<lparr>rng := r'\<rparr>)")
      have "st' = st2" using Cons.prems Pair Inr m by (cases res2) auto
      then show ?thesis using Cons.IH [OF m] by simp
    qed
  qed
qed

lemma chain_from_append:
  "chain_from c (xs @ ys) = (case chain_from c xs of None \<Rightarrow> None | Some c' \<Rightarrow> chain_from c' ys)"
  by (induction c xs rule: chain_from.induct) auto

lemma sample_step_calls':
  "sample_step env eo T m i toks st = (res, st') \<Longrightarrow>
   calls st' = calls st @ [DecoderCall (map (take i) toks) eo (incremental_state st)
                            (incremental_state st')]"
  by (auto simp: sample_step_def call_decoder_def split: prod.splits sum.splits if_splits
      dest!: multinomial_frame')

subsection \<open>The initial token buffer\<close>

lemma set_item_error: "set_item t r c v = Inl e \<Longrightarrow> e = IndexError"
  by (auto simp: set_item_def split: if_splits)

lemma write_partial_error:
  "write_partial env i ps toks = Inl e \<Longrightarrow> e = LookupError \<or> e = IndexError"
  by (induction ps arbitrary: i toks)
     (auto split: option.splits sum.splits dest: set_item_error)

lemma init_tokens_error:
  "init_tokens env L ps = Inl e \<Longrightarrow> e = LookupError \<or> e = IndexError"
  by (auto simp: init_tokens_def split: option.splits sum.splits
      dest: set_item_error write_partial_error)

lemma write_partial_unknown:
  "c \<in> set ps \<Longrightarrow> get_idx env c = None \<Longrightarrow> \<exists>e. write_partial env i ps toks = Inl e"
  by (induction ps arbitrary: i toks) (auto split: option.splits sum.splits)

lemma write_partial_too_long:
  "ps \<noteq> [] \<Longrightarrow> length row \<le> i + length ps \<Longrightarrow> \<exists>e. write_partial env i ps [row] = Inl e"
proof (induction ps arbitrary: i row)
  case Nil
  then show ?case by simp
next
  case (Cons c cs)
  show ?case
  proof (cases "get_idx env c")
    case None
    then show ?thesis by simp
  next
    case (Some k)
    show ?thesis
    proof (cases "i + 1 < length row")
      case True
      then have cs: "cs \<noteq> []" using Cons.prems by auto
      have "\<exists>e. write_partial env (i + 1) cs [row[i + 1 := k]] = Inl e"
        using Cons.prems by (intro Cons.IH [OF cs]) simp
      then show ?thesis using Some True by (simp add: set_item_def)
    next
      case False
      then show ?thesis using Some by (simp add: set_item_def)
    qed
  qed
qed

lemma init_tokens_rejects:
  assumes "L < length ps \<or> (\<exists>c\<in>set ps. get_idx env c = None)"
  shows "\<exists>e. init_tokens env L (Some ps) = Inl e"
proof -
  have wp: "\<exists>e. write_partial env 0 ps [row] = Inl e" if "length row = 1 + L" for row
    using assms that write_partial_too_long [of ps row 0 env]
      write_partial_unknown [of _ ps env 0 "[row]"]
    by (cases "ps = []") auto
  show ?thesis
  proof (cases "get_idx env ''<mask>''")
    case None
    then show ?thesis by (simp add: init_tokens_def)
  next
    case m: (Some mask_idx)
    show ?thesis
    proof (cases "get_idx env ''<cath>''")
      case None
      then show ?thesis using m by (simp add: init_tokens_def)
    next
      case c: (Some cath)
      obtain e where "write_partial env 0 ps [(replicate (1 + L) mask_idx)[0 := cath]] = Inl e"
        using wp [of "(replicate (1 + L) mask_idx)[0 := cath]"] by auto
      then show ?thesis using m c by (simp add: init_tokens_def set_item_def)
    qed
  qed
qed

lemma sample_init_fails:
  assumes "init_tokens env (length coords) ps = Inl e"
  shows "\<exists>e'. sample env coords ps temperature confidence device r = (Inl e', init_state r)
            \<and> (e' = e \<or> batch_converter env [(coords, confidence)] device = Inl e')"
  using assms
  by (cases "batch_converter env [(coords, confidence)] device") (simp_all add: sample_def)

lemma sample_batch_init_fails:
  assumes "init_tokens env (length coords) ps = Inl e"
  shows "\<exists>e'. sample_batch env coords num_samples ps temperature confidence device r
               = (Inl e', init_state r)
            \<and> (e' = e \<or> batch_converter env (replicate (nat num_samples) (coords, confidence))
                            device = Inl e')"
  using assms
  by (cases "batch_converter env (replicate (nat num_samples) (coords, confidence)) device")
     (simp_all add: sample_batch_def)

lemma sample_batch2_init_fails:
  assumes "init_tokens env (length coords) ps = Inl e"
  shows "\<exists>e'. sample_batch2 env coords num_samples ps temperature confidence device r
               = (Inl e', init_state r)
            \<and> (e' = e \<or> batch_converter env (replicate (nat num_samples) (coords, confidence))
                            device = Inl e')"
  using assms
  by (cases "batch_converter env (replicate (nat num_samples) (coords, confidence)) device")
     (simp_all add: sample_batch2_def)


lemma write_partial_Cons:
  assumes "write_partial env i (c # cs) [row] = Inr t'"
  obtains k where "get_idx env c = Some k" and "i + 1 < length row"
    and "write_partial env (i + 1) cs [row[i + 1 := k]] = Inr t'"
  using assms by (auto simp: set_item_def split: option.splits sum.splits if_splits)

lemma write_partial_shape:
  "write_partial env i ps [row] = Inr t' \<Longrightarrow> \<exists>row'. t' = [row'] \<and> length row' = length row"
proof (induction ps arbitrary: i row)
  case Nil
  then show ?case by auto
next
  case (Cons c cs)
  from Cons.prems obtain k where
    w: "write_partial env (i + 1) cs [row[i + 1 := k]] = Inr t'"
    by (rule write_partial_Cons)
  from Cons.IH [OF w] show ?case by simp
qed

lemma write_partial_other:
  "write_partial env i ps [row] = Inr t' \<Longrightarrow> c \<le> i \<or> i + length ps < c \<Longrightarrow> t' ! 0 ! c = row ! c"
proof (induction ps arbitrary: i row)
  case Nil
  then show ?case by auto
next
  case (Cons d ds)
  from Cons.prems(1) obtain k where
    w: "write_partial env (i + 1) ds [row[i + 1 := k]] = Inr t'"
    by (rule write_partial_Cons)
  have "t' ! 0 ! c = row[i + 1 := k] ! c"
    using Cons.prems(2) by (intro Cons.IH [OF w]) auto
  then show ?case using Cons.prems(2) by auto
qed

lemma write_partial_written:
  "write_partial env i ps [row] = Inr t' \<Longrightarrow> p < length ps \<Longrightarrow>
   get_idx env (ps ! p) = Some (t' ! 0 ! (i + p + 1)) \<and> i + p + 1 < length row"
proof (induction ps arbitrary: i row p)
  case Nil
  then show ?case by simp
next
  case (Cons c cs)
  from Cons.prems(1) obtain k where k: "get_idx env c = Some k" and r: "i + 1 < length row"
    and w: "write_partial env (i + 1) cs [row[i + 1 := k]] = Inr t'"
    by (rule write_partial_Cons)
  show ?case
  proof (cases p)
    case 0
    have "t' ! 0 ! (i + 1) = row[i + 1 := k] ! (i + 1)"
      using write_partial_other [OF w, of "i + 1"] by simp
    then show ?thesis using 0 k r by simp
  next
    case (Suc q)
    then have "q < length cs" using Cons.prems(2) by simp
    from Cons.IH [OF w this] show ?thesis using Suc by simp
  qed
qed


lemma init_tokens_Some_Nil: "init_tokens env L (Some []) = init_tokens env L None"
  by (simp add: init_tokens_def split: option.splits sum.splits)


lemma init_tokens_row:
  assumes "init_tokens env L (Some ps) = Inr (m, t)"
  shows "get_idx env ''<mask>'' = Some m \<and> (\<exists>row. t = [row] \<and> length row = 1 + L \<and>
           (\<forall>p<length ps. get_idx env (ps ! p) = Some (row ! (p + 1)) \<and> p < L) \<and>
           (\<forall>c. length ps < c \<and> c \<le> L \<longrightarrow> row ! c = m))"
proof -
  from assms obtain cath where m: "get_idx env ''<mask>'' = Some m"
    and w: "write_partial env 0 ps [(replicate (1 + L) m)[0 := cath]] = Inr t"
    by (auto simp: init_tokens_def set_item_def split: option.splits sum.splits if_splits)
  obtain row where t: "t = [row]" and len: "length row = 1 + L"
    using write_partial_shape [OF w] by auto
  have a: "get_idx env (ps ! p) = Some (row ! (p + 1)) \<and> p < L" if "p < length ps" for p
    using write_partial_written [OF w that] t by simp
  have b: "row ! c = m" if "length ps < c" "c \<le> L" for c
    using write_partial_other [OF w, of c] that t by simp
  show ?thesis using m t len a b by blast
qed

lemma init_tokens_None_row:
  assumes "init_tokens env L None = Inr (m, t)"
  shows "get_idx env ''<mask>'' = Some m \<and> (\<exists>row. t = [row] \<and> length row = 1 + L \<and>
           (\<forall>c. 0 < c \<and> c \<le> L \<longrightarrow> row ! c = m))"
  using init_tokens_row [of env L "[]" m t] assms by (simp add: init_tokens_Some_Nil)

subsection \<open>Rejected partial sequences\<close>

text \<open>
  Claim C8. When the partial sequence is longer than the coordinate input, or holds a
  symbol the vocabulary does not know (\<open>get_idx\<close> raises), each of the three methods
  fails while the token buffer is initialised: the state returned is the initial one, so
  neither the encoder nor the decoder was called. The exception is an \<open>IndexError\<close> or
  a \<open>LookupError\<close>, unless the batch converter, which runs before the buffer is
  built, has raised one of its own.
\<close>

theorem partial_seq_rejected:
  assumes "length coords < length ps \<or> (\<exists>c\<in>set ps. get_idx env c = None)"
  shows "(\<exists>e. sample env coords (Some ps) temperature confidence device r = (Inl e, init_state r)
            \<and> (e = IndexError \<or> e = LookupError
                \<or> batch_converter env [(coords, confidence)] device = Inl e))
       \<and> (\<exists>e. sample_batch env coords num_samples (Some ps) temperature confidence device r
                = (Inl e, init_state r)
            \<and> (e = IndexError \<or> e = LookupError
                \<or> batch_converter env (replicate (nat num_samples) (coords, confidence)) device
                   = Inl e))
       \<and> (\<exists>e. sample_batch2 env coords num_samples (Some ps) temperature confidence device r
                = (Inl e, init_state r)
            \<and> (e = IndexError \<or> e = LookupError
                \<or> batch_converter env (replicate (nat num_samples) (coords, confidence)) device
                   = Inl e))"
proof -
  obtain e where e: "init_tokens env (length coords) (Some ps) = Inl e"
    using init_tokens_rejects [OF assms] by blast
  then have k: "e = LookupError \<or> e = IndexError" by (rule init_tokens_error)
  show ?thesis
    using k sample_init_fails [OF e, of temperature confidence device r]
      sample_batch_init_fails [OF e, of num_samples temperature confidence device r]
      sample_batch2_init_fails [OF e, of num_samples temperature confidence device r]
    by blast
qed

theorem partial_seq_rejected_witness:
  "length (test_coords 1) < length [''A'', ''C'']
   \<and> sample test_env (test_coords 1) (Some [''A'', ''C'']) 1 None None [1]
       = (Inl IndexError, init_state [1])
   \<and> sample_batch test_env (test_coords 1) 2 (Some [''A'', ''C'']) 1 None (Some ''cpu'') [1]
       = (Inl IndexError, init_state [1])
   \<and> sample_batch2 test_env (test_coords 1) 2 (Some [''A'', ''C'']) 1 None (Some ''cpu'') [1]
       = (Inl IndexError, init_state [1])
   \<and> get_idx test_env ''X'' = None
   \<and> sample test_env (test_coords 1) (Some [''X'']) 1 None None [1]
       = (Inl LookupError, init_state [1])"
  using partial_seq_rejected [of "test_coords 1" "[''A'', ''C'']" test_env 1 None None "[1]"]
  by (simp add: test_defs run_defs)

subsection \<open>sample_batch without a device\<close>

text \<open>
  Claim C9. When \<^verbatim>\<open>device\<close> is \<^verbatim>\<open>None\<close> (or any falsy value) and \<^verbatim>\<open>num_samples\<close> is at
  least 1, \<^verbatim>\<open>sample_batch\<close> raises before it produces a sequence and before it calls the
  decoder: the exception is a \<open>NameError\<close> (the list \<^verbatim>\<open>all_sampled_tokens\<close> was never
  assigned), unless the batch converter, the initialisation of the buffer or the encoder
  has failed before.
\<close>

theorem sample_batch_needs_device:
  assumes "\<not> truthy device" and "0 < num_samples"
  shows "\<exists>e st. sample_batch env coords num_samples partial_seq temperature confidence device r
                 = (Inl e, st)
           \<and> decoder_calls (calls st) = []
           \<and> (e = NameError
              \<or> batch_converter env (replicate (nat num_samples) (coords, confidence)) device = Inl e
              \<or> init_tokens env (length coords) partial_seq = Inl e
              \<or> (\<exists>batch. batch_converter env (replicate (nat num_samples) (coords, confidence)) device = Inr batch \<and> encoder env batch = Inl e))"
proof -
  let ?bc = "batch_converter env (replicate (nat num_samples) (coords, confidence)) device"
  have u: "[0..<nat num_samples] = 0 # [1..<nat num_samples]"
    using assms(2) by (simp add: upt_conv_Cons)
  have loop: "for_loop [0..<nat num_samples] (batch_sample env eo None temperature m L) [] st
                = (Inl NameError, st)" for eo m L st
    by (simp add: u batch_sample_def)
  show ?thesis
  proof (cases ?bc)
    case (Inl e)
    then show ?thesis
      by (simp add: sample_batch_def init_state_def decoder_calls_def)
  next
    case bc: (Inr batch)
    show ?thesis
    proof (cases "init_tokens env (length coords) partial_seq")
      case (Inl e)
      then show ?thesis using bc
        by (simp add: sample_batch_def init_state_def decoder_calls_def)
    next
      case it: (Inr mt)
      obtain m toks where mt: "mt = (m, toks)" by (cases mt)
      show ?thesis
      proof (cases "encoder env batch")
        case (Inl e)
        then show ?thesis using bc it mt
          by (simp add: sample_batch_def init_state_def decoder_calls_def call_encoder_def)
      next
        case (Inr eo)
        then show ?thesis using bc it mt assms(1)
          by (simp add: sample_batch_def init_state_def decoder_calls_def call_encoder_def loop)
      qed
    qed
  qed
qed

theorem sample_batch_needs_device_witness:
  "\<not> truthy None \<and> (0::int) < 2
   \<and> sample_batch test_env (test_coords 1) 2 None 1 None None [1]
       = (Inl NameError, \<lparr>incremental_state = [], rng = [1], calls = [EncoderCall]\<rparr>)"
  using sample_batch_needs_device [of None 2 test_env "test_coords 1" None 1 None "[1]"]
  by (simp add: test_defs run_defs upt_rec)

subsection \<open>The log of calls of a method\<close>

lemma decoder_trace_refl: "decoder_trace P s s"
  by (simp add: decoder_trace_def)

lemma decoder_trace_trans:
  assumes "decoder_trace P s s'" and "decoder_trace P s' s''"
  shows "decoder_trace P s s''"
proof -
  from assms(1) obtain ds where ds: "calls s' = calls s @ ds"
    "list_all (\<lambda>d. is_DecoderCall d \<and> P (enc_arg d)) ds"
    "chain_from (incremental_state s) ds = Some (incremental_state s')"
    by (auto simp: decoder_trace_def)
  from assms(2) obtain es where es: "calls s'' = calls s' @ es"
    "list_all (\<lambda>d. is_DecoderCall d \<and> P (enc_arg d)) es"
    "chain_from (incremental_state s') es = Some (incremental_state s'')"
    by (auto simp: decoder_trace_def)
  have "calls s'' = calls s @ (ds @ es)" using ds es by simp
  moreover have "list_all (\<lambda>d. is_DecoderCall d \<and> P (enc_arg d)) (ds @ es)"
    using ds es by simp
  moreover have "chain_from (incremental_state s) (ds @ es) = Some (incremental_state s'')"
    using ds es by (simp add: chain_from_append)
  ultimately show ?thesis unfolding decoder_trace_def by blast
qed

lemma decoder_trace_mono:
  "decoder_trace P s s' \<Longrightarrow> (\<And>eo. P eo \<Longrightarrow> Q eo) \<Longrightarrow> decoder_trace Q s s'"
  unfolding decoder_trace_def list_all_iff by blast

lemma for_loop_decoder_trace:
  assumes "\<And>i x s. i \<in> set is \<Longrightarrow> decoder_trace P s (snd (body i x s))"
  shows "decoder_trace P s (snd (for_loop is body x s))"
  using assms
proof (induction "is" arbitrary: x s)
  case Nil
  then show ?case by (simp add: decoder_trace_refl)
next
  case (Cons i "is")
  have first: "decoder_trace P s (snd (body i x s))" using Cons.prems by simp
  show ?case
  proof (cases "body i x s")
    case (Pair res s')
    show ?thesis
    proof (cases res)
      case (Inl e)
      then show ?thesis using first Pair by simp
    next
      case (Inr x')
      have "decoder_trace P s' (snd (for_loop is body x' s'))"
        using Cons.prems by (intro Cons.IH) simp
      then show ?thesis using first Pair Inr by (auto intro: decoder_trace_trans)
    qed
  qed
qed

lemma sample_step_trace: "decoder_trace (\<lambda>a. a = eo) st (snd (sample_step env eo T m i toks st))"
  using sample_step_calls' [of env eo T m i toks st "fst (sample_step env eo T m i toks st)"
      "snd (sample_step env eo T m i toks st)"]
  by (simp add: decoder_trace_def)

lemma decode_trace: "decoder_trace (\<lambda>a. a = eo) st (snd (decode env eo T m L toks st))"
proof -
  have "decoder_trace (\<lambda>a. a = eo) st
          (snd (for_loop [1..<L + 1] (sample_step env eo T m) toks st))"
    by (rule for_loop_decoder_trace) (rule sample_step_trace)
  moreover obtain res s' where "for_loop [1..<L + 1] (sample_step env eo T m) toks st = (res, s')"
    by (cases "for_loop [1..<L + 1] (sample_step env eo T m) toks st")
  ultimately show ?thesis by (cases res) (simp_all add: decode_def del: upt_Suc)
qed

lemma batch_sample_trace:
  "decoder_trace (\<lambda>a. \<exists>k. slice_encoder_out env all_eo k = Inr a) st
     (snd (batch_sample env all_eo ats T m L k all_seqs st))"
proof (cases ats)
  case None
  then show ?thesis by (simp add: batch_sample_def decoder_trace_refl)
next
  case (Some ts)
  show ?thesis
  proof (cases "slice_encoder_out env all_eo k")
    case (Inl e)
    then show ?thesis using Some by (simp add: batch_sample_def decoder_trace_refl)
  next
    case (Inr eo)
    have "decoder_trace (\<lambda>a. \<exists>k. slice_encoder_out env all_eo k = Inr a) st
            (snd (decode env eo T m L (ts ! k) st))"
      using decode_trace [of eo st env T m L "ts ! k"] Inr
      by (auto intro: decoder_trace_mono)
    moreover obtain res s' where "decode env eo T m L (ts ! k) st = (res, s')"
      by (cases "decode env eo T m L (ts ! k) st")
    ultimately show ?thesis using Some Inr
      by (cases res) (simp_all add: batch_sample_def decoder_trace_refl)
  qed
qed

lemma batch2_row_frame:
  "batch2_row env probs m i j toks st = (res, st') \<Longrightarrow>
   incremental_state st' = incremental_state st \<and> calls st' = calls st"
  by (auto simp: batch2_row_def split: sum.splits list.splits if_splits prod.splits
      dest!: multinomial_frame')

lemma batch2_rows_frame:
  "for_loop js (batch2_row env probs m i) toks st = (res, st') \<Longrightarrow>
   incremental_state st' = incremental_state st \<and> calls st' = calls st"
proof (induction js arbitrary: toks st)
  case Nil
  then show ?case by simp
next
  case (Cons j js)
  obtain r1 s1 where b: "batch2_row env probs m i j toks st = (r1, s1)"
    by (cases "batch2_row env probs m i j toks st")
  note f = batch2_row_frame [OF b]
  show ?case
  proof (cases r1)
    case (Inl e)
    then show ?thesis using Cons.prems b f by simp
  next
    case (Inr t1)
    then have "for_loop js (batch2_row env probs m i) t1 s1 = (res, st')"
      using Cons.prems b by simp
    from Cons.IH [OF this] show ?thesis using f by simp
  qed
qed

lemma batch2_step_calls':
  "batch2_step env eo T m i toks st = (res, st') \<Longrightarrow>
   calls st' = calls st @ [DecoderCall (map (take i) toks) eo (incremental_state st)
                            (incremental_state st')]"
  by (auto simp: batch2_step_def call_decoder_def split: prod.splits sum.splits
      dest!: batch2_rows_frame)

lemma batch2_step_trace: "decoder_trace (\<lambda>a. a = eo) st (snd (batch2_step env eo T m i toks st))"
  using batch2_step_calls' [of env eo T m i toks st "fst (batch2_step env eo T m i toks st)"
      "snd (batch2_step env eo T m i toks st)"]
  by (simp add: decoder_trace_def)

lemma after_encoder:
  assumes "decoder_trace P (snd (call_encoder env batch (init_state r))) st"
  shows "chain_from [] (calls st) = Some (incremental_state st) \<and> encoder_first P (calls st)"
  using assms
  by (auto simp: decoder_trace_def call_encoder_def init_state_def encoder_first_def)

lemma sample_cases:
  obtains (early) e where
      "sample env coords ps T conf dev r = (Inl e, init_state r)"
  | (encoded) batch where
      "batch_converter env [(coords, conf)] dev = Inr batch"
      "decoder_trace (\<lambda>a. encoder env batch = Inr a)
         (snd (call_encoder env batch (init_state r))) (snd (sample env coords ps T conf dev r))"
proof (cases "batch_converter env [(coords, conf)] dev")
  case (Inl e)
  then show ?thesis by (intro early [of e]) (simp add: sample_def)
next
  case bc: (Inr batch)
  show ?thesis
  proof (cases "init_tokens env (length coords) ps")
    case (Inl e)
    then show ?thesis using bc by (intro early [of e]) (simp add: sample_def)
  next
    case (Inr mt)
    obtain m toks where mt: "mt = (m, toks)" by (cases mt)
    show ?thesis
    proof (cases "encoder env batch")
      case (Inl e)
      then have "snd (sample env coords ps T conf dev r) = snd (call_encoder env batch (init_state r))"
        using bc Inr mt by (simp add: sample_def call_encoder_def)
      then show ?thesis using bc by (intro encoded [of batch]) (simp_all add: decoder_trace_refl)
    next
      case eo: (Inr eo)
      have "snd (sample env coords ps T conf dev r)
              = snd (decode env eo T m (length coords) toks (snd (call_encoder env batch (init_state r))))"
        using bc Inr mt eo by (simp add: sample_def call_encoder_def)
      then show ?thesis using bc eo
          decode_trace [of eo "snd (call_encoder env batch (init_state r))" env T m "length coords" toks]
        by (intro encoded [of batch]) (auto intro: decoder_trace_mono)
    qed
  qed
qed

lemma sample_batch_cases:
  obtains (early) e where
      "sample_batch env coords n ps T conf dev r = (Inl e, init_state r)"
  | (encoded) batch where
      "batch_converter env (replicate (nat n) (coords, conf)) dev = Inr batch"
      "decoder_trace (\<lambda>a. \<exists>all_eo k. encoder env batch = Inr all_eo
                            \<and> slice_encoder_out env all_eo k = Inr a)
         (snd (call_encoder env batch (init_state r)))
         (snd (sample_batch env coords n ps T conf dev r))"
proof (cases "batch_converter env (replicate (nat n) (coords, conf)) dev")
  case (Inl e)
  then show ?thesis by (intro early [of e]) (simp add: sample_batch_def)
next
  case bc: (Inr batch)
  show ?thesis
  proof (cases "init_tokens env (length coords) ps")
    case (Inl e)
    then show ?thesis using bc by (intro early [of e]) (simp add: sample_batch_def)
  next
    case (Inr mt)
    obtain m toks where mt: "mt = (m, toks)" by (cases mt)
    show ?thesis
    proof (cases "encoder env batch")
      case (Inl e)
      then have "snd (sample_batch env coords n ps T conf dev r)
                   = snd (call_encoder env batch (init_state r))"
        using bc Inr mt by (simp add: sample_batch_def call_encoder_def)
      then show ?thesis using bc by (intro encoded [of batch]) (simp_all add: decoder_trace_refl)
    next
      case eo: (Inr all_eo)
      let ?st = "snd (call_encoder env batch (init_state r))"
      let ?ats = "if truthy dev then Some (replicate (nat n) toks) else None"
      have "snd (sample_batch env coords n ps T conf dev r)
              = snd (for_loop [0..<nat n]
                       (batch_sample env all_eo ?ats T m (length coords)) [] ?st)"
        using bc Inr mt eo by (simp add: sample_batch_def call_encoder_def)
      moreover have "decoder_trace (\<lambda>a. \<exists>k. slice_encoder_out env all_eo k = Inr a) ?st
          (snd (for_loop [0..<nat n] (batch_sample env all_eo ?ats T m (length coords)) [] ?st))"
        by (rule for_loop_decoder_trace) (rule batch_sample_trace)
      ultimately show ?thesis using bc eo
        by (intro encoded [of batch]) (auto intro: decoder_trace_mono)
    qed
  qed
qed

lemma sample_batch2_cases:
  obtains (early) e where
      "sample_batch2 env coords n ps T conf dev r = (Inl e, init_state r)"
  | (encoded) batch where
      "batch_converter env (replicate (nat n) (coords, conf)) dev = Inr batch"
      "decoder_trace (\<lambda>a. \<exists>all_eo. encoder env batch = Inr all_eo
                            \<and> repack_encoder_out env all_eo = Inr a)
         (snd (call_encoder env batch (init_state r)))
         (snd (sample_batch2 env coords n ps T conf dev r))"
proof (cases "batch_converter env (replicate (nat n) (coords, conf)) dev")
  case (Inl e)
  then show ?thesis by (intro early [of e]) (simp add: sample_batch2_def)
next
  case bc: (Inr batch)
  show ?thesis
  proof (cases "init_tokens env (length coords) ps")
    case (Inl e)
    then show ?thesis using bc by (intro early [of e]) (simp add: sample_batch2_def)
  next
    case (Inr mt)
    obtain m toks where mt: "mt = (m, toks)" by (cases mt)
    let ?st = "snd (call_encoder env batch (init_state r))"
    show ?thesis
    proof (cases "encoder env batch")
      case (Inl e)
      then have "snd (sample_batch2 env coords n ps T conf dev r) = ?st"
        using bc Inr mt by (simp add: sample_batch2_def call_encoder_def)
      then show ?thesis using bc by (intro encoded [of batch]) (simp_all add: decoder_trace_refl)
    next
      case eo: (Inr all_eo)
      show ?thesis
      proof (cases "repeat_rows dev n toks")
        case (Inl e)
        then have "snd (sample_batch2 env coords n ps T conf dev r) = ?st"
          using bc Inr mt eo by (simp add: sample_batch2_def call_encoder_def)
        then show ?thesis using bc by (intro encoded [of batch]) (simp_all add: decoder_trace_refl)
      next
        case rr: (Inr toks2)
        show ?thesis
        proof (cases "repack_encoder_out env all_eo")
          case (Inl e)
          then have "snd (sample_batch2 env coords n ps T conf dev r) = ?st"
            using bc Inr mt eo rr by (simp add: sample_batch2_def call_encoder_def)
          then show ?thesis using bc
            by (intro encoded [of batch]) (simp_all add: decoder_trace_refl)
        next
          case rp: (Inr eo2)
          let ?loop = "for_loop [1..<length coords + 1] (batch2_step env eo2 T m) toks2 ?st"
          obtain res s' where l: "?loop = (res, s')" by (cases ?loop)
          have "snd (sample_batch2 env coords n ps T conf dev r) = snd ?loop"
            using bc Inr mt eo rr rp l
            by (cases res) (simp_all add: sample_batch2_def call_encoder_def del: upt_Suc)
          moreover have "decoder_trace (\<lambda>a. a = eo2) ?st (snd ?loop)"
            by (rule for_loop_decoder_trace) (rule batch2_step_trace)
          ultimately show ?thesis using bc eo rp
            by (intro encoded [of batch]) (auto intro: decoder_trace_mono)
        qed
      qed
    qed
  qed
qed

lemma encoder_first_count:
  "encoder_first P evs \<Longrightarrow> evs \<noteq> [] \<Longrightarrow> length (filter is_EncoderCall evs) = 1"
proof -
  assume a: "encoder_first P evs" "evs \<noteq> []"
  then obtain e es where evs: "evs = e # es" by (cases evs) auto
  have "filter is_EncoderCall es = []"
    using a evs by (auto simp: encoder_first_def list_all_iff filter_empty_conv event.disc)
  then show ?thesis using a evs by (simp add: encoder_first_def)
qed

lemma after_encoder_nonempty:
  assumes "decoder_trace P (snd (call_encoder env batch (init_state r))) st"
  shows "calls st \<noteq> []"
  using assms by (auto simp: decoder_trace_def call_encoder_def init_state_def)

subsection \<open>The shape of the buffer and the prefixes handed to the decoder\<close>

lemma for_loop_trace_concat:
  assumes "for_loop is body x s = (Inr y, t)" and "P x"
    and "\<And>i x s x' s'. i \<in> set is \<Longrightarrow> P x \<Longrightarrow> body i x s = (Inr x', s')
           \<Longrightarrow> P x' \<and> f s' = f s @ g i"
  shows "P y \<and> f t = f s @ concat (map g is)"
  using assms
proof (induction "is" arbitrary: x s)
  case Nil
  then show ?case by simp
next
  case (Cons i "is")
  from Cons.prems(1) obtain x' s' where b: "body i x s = (Inr x', s')"
    and r: "for_loop is body x' s' = (Inr y, t)"
    by (auto split: prod.splits sum.splits)
  have st: "P x' \<and> f s' = f s @ g i" using Cons.prems(3) [OF _ Cons.prems(2) b] by simp
  have step: "\<And>j x s x' s'. j \<in> set is \<Longrightarrow> P x \<Longrightarrow> body j x s = (Inr x', s')
      \<Longrightarrow> P x' \<and> f s' = f s @ g j"
    using Cons.prems(3) by (meson list.set_intros(2))
  have "P y \<and> f t = f s' @ concat (map g is)"
    using st by (intro Cons.IH [OF r _ step]) auto
  then show ?case using st by simp
qed

lemma map2_update_lengths:
  "length t = length vals \<Longrightarrow> map length (map2 (\<lambda>row v. row[c := v]) t vals) = map length t"
  by (induction t vals rule: list_induct2) auto

lemma set_column_lengths:
  assumes "set_column t c vals = Inr t'"
  shows "map length t' = map length t"
proof (cases "length vals = length t")
  case True
  then have "t' = map2 (\<lambda>row v. row[c := v]) t vals"
    using assms by (simp add: set_column_def split: if_splits)
  then show ?thesis using map2_update_lengths [of t vals c] True by simp
next
  case False
  then have "t' = map (\<lambda>row. row[c := hd vals]) t"
    using assms by (simp add: set_column_def split: if_splits)
  then show ?thesis by simp
qed

lemma set_slice_lengths: "set_slice t j c vals = Inr t' \<Longrightarrow> map length t' = map length t"
  by (auto simp: set_slice_def map_update list_update_same_conv split: if_splits)

lemma sample_step_lengths:
  "sample_step env eo T m i toks st = (Inr toks', st') \<Longrightarrow> map length toks' = map length toks"
  by (auto simp: sample_step_def split: prod.splits sum.splits if_splits
      dest: set_column_lengths)

lemma batch2_row_lengths:
  "batch2_row env probs m i j toks st = (Inr toks', st') \<Longrightarrow> map length toks' = map length toks"
  by (auto simp: batch2_row_def split: prod.splits sum.splits if_splits list.splits
      dest: set_slice_lengths)

lemma batch2_step_lengths:
  assumes "batch2_step env eo T m i toks st = (Inr toks', st')"
  shows "map length toks' = map length toks"
proof -
  from assms obtain logits st1 where
    l: "for_loop [0..<length logits] (batch2_row env (batch2_probs env logits T) m i) toks st1
          = (Inr toks', st')"
    by (auto simp: batch2_step_def split: prod.splits sum.splits)
  show ?thesis
    by (rule for_loop_success [OF l, where P = "\<lambda>x s. map length x = map length toks"])
       (auto dest: batch2_row_lengths)
qed

lemma prefix_widths_append_decoder:
  "prefix_widths (evs @ [DecoderCall p eo c c']) = prefix_widths evs @ [map length p]"
  by (simp add: prefix_widths_def decoder_calls_def)

lemma take_widths:
  "map length toks = replicate R W \<Longrightarrow> i \<le> W \<Longrightarrow> map length (map (take i) toks) = replicate R i"
proof -
  assume a: "map length toks = replicate R W" "i \<le> W"
  have len: "length toks = R" using a(1) by (metis length_map length_replicate)
  have "\<forall>row\<in>set toks. length row = W"
    using a(1) by (metis (no_types, lifting) imageI in_set_replicate list.set_map)
  then have "map length (map (take i) toks) = map (\<lambda>_. i) toks" using a(2) by auto
  then show ?thesis using len by (simp add: map_replicate_const)
qed

lemma sample_step_widths:
  assumes "sample_step env eo T m i toks st = (Inr toks', st')"
    and "map length toks = replicate R W" and "i \<le> W"
  shows "map length toks' = replicate R W
       \<and> prefix_widths (calls st') = prefix_widths (calls st) @ [replicate R i]"
  using sample_step_calls' [OF assms(1)] sample_step_lengths [OF assms(1)]
    take_widths [OF assms(2,3)] assms(2)
  by (simp add: prefix_widths_append_decoder)

lemma batch2_step_widths:
  assumes "batch2_step env eo T m i toks st = (Inr toks', st')"
    and "map length toks = replicate R W" and "i \<le> W"
  shows "map length toks' = replicate R W
       \<and> prefix_widths (calls st') = prefix_widths (calls st) @ [replicate R i]"
  using batch2_step_calls' [OF assms(1)] batch2_step_lengths [OF assms(1)]
    take_widths [OF assms(2,3)] assms(2)
  by (simp add: prefix_widths_append_decoder)

lemma decode_widths:
  assumes "decode env eo T m L toks st = (Inr s, st')"
    and "map length toks = replicate R (L + 1)"
  shows "prefix_widths (calls st') = prefix_widths (calls st) @ map (replicate R) [1..<L + 1]"
proof -
  from assms(1) obtain toks' where
    l: "for_loop [1..<L + 1] (sample_step env eo T m) toks st = (Inr toks', st')"
    by (auto simp: decode_def simp del: upt_Suc split: prod.splits sum.splits)
  have "map length toks' = replicate R (L + 1)
      \<and> prefix_widths (calls st') = prefix_widths (calls st) @ map (replicate R) [1..<L + 1]"
    by (rule for_loop_trace [OF l, where P = "\<lambda>x. map length x = replicate R (L + 1)"
          and f = "\<lambda>s. prefix_widths (calls s)"])
       (use assms(2) in \<open>auto dest: sample_step_widths simp del: upt_Suc\<close>)
  then show ?thesis by simp
qed

lemma init_tokens_shape:
  assumes "init_tokens env L ps = Inr (m, t)"
  shows "\<exists>row. t = [row] \<and> length row = L + 1"
proof (cases ps)
  case None
  then show ?thesis using init_tokens_None_row [of env L m t] assms by auto
next
  case (Some qs)
  then show ?thesis using init_tokens_row [of env L qs m t] assms by auto
qed

lemma sample_InrE:
  assumes "sample env coords ps T conf dev r = (Inr s, st)"
  obtains batch m toks eo where
    "batch_converter env [(coords, conf)] dev = Inr batch"
    "init_tokens env (length coords) ps = Inr (m, toks)"
    "encoder env batch = Inr eo"
    "decode env eo T m (length coords) toks (snd (call_encoder env batch (init_state r)))
       = (Inr s, st)"
proof (cases "batch_converter env [(coords, conf)] dev")
  case (Inl e)
  then show ?thesis using assms by (simp add: sample_def)
next
  case bc: (Inr batch)
  show ?thesis
  proof (cases "init_tokens env (length coords) ps")
    case (Inl e)
    then show ?thesis using assms bc by (simp add: sample_def)
  next
    case (Inr mt)
    obtain m toks where mt: "mt = (m, toks)" by (cases mt)
    show ?thesis
    proof (cases "encoder env batch")
      case (Inl e)
      then show ?thesis using assms bc Inr mt by (simp add: sample_def call_encoder_def)
    next
      case eo: (Inr eo)
      have "decode env eo T m (length coords) toks (snd (call_encoder env batch (init_state r)))
              = (Inr s, st)"
        using assms bc Inr mt eo by (simp add: sample_def call_encoder_def)
      then show ?thesis using that bc Inr mt eo by blast
    qed
  qed
qed

lemma sample_batch_InrE:
  assumes "sample_batch env coords n ps T conf dev r = (Inr ss, st)"
  obtains batch m toks all_eo where
    "batch_converter env (replicate (nat n) (coords, conf)) dev = Inr batch"
    "init_tokens env (length coords) ps = Inr (m, toks)"
    "encoder env batch = Inr all_eo"
    "for_loop [0..<nat n]
       (batch_sample env all_eo
          (if truthy dev then Some (replicate (nat n) toks) else None) T m (length coords))
       [] (snd (call_encoder env batch (init_state r))) = (Inr ss, st)"
proof (cases "batch_converter env (replicate (nat n) (coords, conf)) dev")
  case (Inl e)
  then show ?thesis using assms by (simp add: sample_batch_def)
next
  case bc: (Inr batch)
  show ?thesis
  proof (cases "init_tokens env (length coords) ps")
    case (Inl e)
    then show ?thesis using assms bc by (simp add: sample_batch_def)
  next
    case (Inr mt)
    obtain m toks where mt: "mt = (m, toks)" by (cases mt)
    show ?thesis
    proof (cases "encoder env batch")
      case (Inl e)
      then show ?thesis using assms bc Inr mt by (simp add: sample_batch_def call_encoder_def)
    next
      case eo: (Inr all_eo)
      have "for_loop [0..<nat n]
         (batch_sample env all_eo
            (if truthy dev then Some (replicate (nat n) toks) else None) T m (length coords))
         [] (snd (call_encoder env batch (init_state r))) = (Inr ss, st)"
        using assms bc Inr mt eo by (simp add: sample_batch_def call_encoder_def)
      then show ?thesis using that bc Inr mt eo by blast
    qed
  qed
qed

lemma sample_batch2_InrE:
  assumes "sample_batch2 env coords n ps T conf dev r = (Inr ss, st)"
  obtains batch m toks all_eo toks2 eo toks' where
    "batch_converter env (replicate (nat n) (coords, conf)) dev = Inr batch"
    "init_tokens env (length coords) ps = Inr (m, toks)"
    "encoder env batch = Inr all_eo"
    "repeat_rows dev n toks = Inr toks2"
    "repack_encoder_out env all_eo = Inr eo"
    "for_loop [1..<length coords + 1] (batch2_step env eo T m) toks2
       (snd (call_encoder env batch (init_state r))) = (Inr toks', st)"
    "collect_strings env toks' [0..<nat n] [] = Inr ss"
proof (cases "batch_converter env (replicate (nat n) (coords, conf)) dev")
  case (Inl e)
  then show ?thesis using assms by (simp add: sample_batch2_def)
next
  case bc: (Inr batch)
  show ?thesis
  proof (cases "init_tokens env (length coords) ps")
    case (Inl e)
    then show ?thesis using assms bc by (simp add: sample_batch2_def)
  next
    case (Inr mt)
    obtain m toks where mt: "mt = (m, toks)" by (cases mt)
    show ?thesis
    proof (cases "encoder env batch")
      case (Inl e)
      then show ?thesis using assms bc Inr mt by (simp add: sample_batch2_def call_encoder_def)
    next
      case eo: (Inr all_eo)
      show ?thesis
      proof (cases "repeat_rows dev n toks")
        case (Inl e)
        then show ?thesis using assms bc Inr mt eo
          by (simp add: sample_batch2_def call_encoder_def)
      next
        case rr: (Inr toks2)
        show ?thesis
        proof (cases "repack_encoder_out env all_eo")
          case (Inl e)
          then show ?thesis using assms bc Inr mt eo rr
            by (simp add: sample_batch2_def call_encoder_def)
        next
          case rp: (Inr eo2)
          let ?loop = "for_loop [1..<length coords + 1] (batch2_step env eo2 T m) toks2
                         (snd (call_encoder env batch (init_state r)))"
          obtain res s' where l: "?loop = (res, s')" by (cases ?loop)
          show ?thesis
          proof (cases res)
            case (Inl e)
            then show ?thesis using assms bc Inr mt eo rr rp l
              by (simp add: sample_batch2_def call_encoder_def del: upt_Suc)
          next
            case t': (Inr toks')
            have "s' = st \<and> collect_strings env toks' [0..<nat n] [] = Inr ss"
              using assms bc Inr mt eo rr rp l t'
              by (simp add: sample_batch2_def call_encoder_def del: upt_Suc)
            then show ?thesis using that bc Inr mt eo rr rp l t' by blast
          qed
        qed
      qed
    qed
  qed
qed

lemma encoder_widths:
  "prefix_widths (calls (snd (call_encoder env batch (init_state r)))) = []"
  by (simp add: call_encoder_def init_state_def prefix_widths_def decoder_calls_def)

lemma sample_widths:
  assumes "sample env coords ps T conf dev r = (Inr s, st)"
  shows "prefix_widths (calls st) = map (replicate 1) [1..<length coords + 1]"
proof -
  from assms obtain batch m toks eo where
    it: "init_tokens env (length coords) ps = Inr (m, toks)" and
    d: "decode env eo T m (length coords) toks (snd (call_encoder env batch (init_state r)))
          = (Inr s, st)"
    by (rule sample_InrE)
  have "map length toks = replicate 1 (length coords + 1)"
    using init_tokens_shape [OF it] by auto
  from decode_widths [OF d this] show ?thesis by (simp add: encoder_widths del: upt_Suc)
qed

lemma batch_sample_widths:
  assumes "batch_sample env all_eo ats T m L k seqs st = (Inr seqs', st')"
    and "\<And>ts. ats = Some ts \<Longrightarrow> k < length ts \<Longrightarrow> map length (ts ! k) = replicate 1 (L + 1)"
  shows "prefix_widths (calls st') = prefix_widths (calls st) @ map (replicate 1) [1..<L + 1]"
proof -
  from assms(1) obtain ts eo s where ats: "ats = Some ts" and k: "k < length ts"
    and d: "decode env eo T m L (ts ! k) st = (Inr s, st')"
    by (auto simp: batch_sample_def split: option.splits if_splits sum.splits prod.splits)
  from decode_widths [OF d assms(2) [OF ats k]] show ?thesis .
qed

lemma sample_batch_widths:
  assumes "sample_batch env coords n ps T conf dev r = (Inr ss, st)"
  shows "prefix_widths (calls st)
           = concat (replicate (nat n) (map (replicate 1) [1..<length coords + 1]))"
proof -
  let ?L = "length coords"
  from assms obtain batch m toks all_eo where
    it: "init_tokens env ?L ps = Inr (m, toks)" and
    l: "for_loop [0..<nat n]
         (batch_sample env all_eo
            (if truthy dev then Some (replicate (nat n) toks) else None) T m ?L)
         [] (snd (call_encoder env batch (init_state r))) = (Inr ss, st)"
    by (rule sample_batch_InrE)
  have sh: "map length toks = replicate 1 (?L + 1)"
    using init_tokens_shape [OF it] by auto
  have "True \<and> prefix_widths (calls st)
      = prefix_widths (calls (snd (call_encoder env batch (init_state r))))
        @ concat (map (\<lambda>k. map (replicate 1) [1..<?L + 1]) [0..<nat n])"
  proof (rule for_loop_trace_concat [OF l, where P = "\<lambda>x. True"
          and f = "\<lambda>s. prefix_widths (calls s)"], simp)
    fix k x s x' s'
    assume b: "batch_sample env all_eo
        (if truthy dev then Some (replicate (nat n) toks) else None) T m ?L k x s = (Inr x', s')"
    have "prefix_widths (calls s') = prefix_widths (calls s) @ map (replicate 1) [1..<?L + 1]"
      by (rule batch_sample_widths [OF b]) (use sh in \<open>auto split: if_splits\<close>)
    then show "True \<and> prefix_widths (calls s')
        = prefix_widths (calls s) @ map (replicate 1) [1..<?L + 1]" by simp
  qed
  then show ?thesis by (simp add: encoder_widths map_replicate_const del: upt_Suc)
qed

lemma repeat_rows_lengths:
  assumes "repeat_rows dev n [row] = Inr toks2"
  shows "toks2 = replicate (if truthy dev then nat n else 1) row"
proof -
  have "concat (replicate k [row]) = replicate k row" for k
    by (induction k) auto
  then show ?thesis using assms by (auto simp: repeat_rows_def split: if_splits)
qed

lemma sample_batch2_widths:
  assumes "sample_batch2 env coords n ps T conf dev r = (Inr ss, st)"
  shows "prefix_widths (calls st)
           = map (replicate (if truthy dev then nat n else 1)) [1..<length coords + 1]"
proof -
  let ?L = "length coords" and ?R = "if truthy dev then nat n else 1"
  from assms obtain batch m toks all_eo toks2 eo toks' where
    it: "init_tokens env ?L ps = Inr (m, toks)" and
    rr: "repeat_rows dev n toks = Inr toks2" and
    l: "for_loop [1..<?L + 1] (batch2_step env eo T m) toks2
          (snd (call_encoder env batch (init_state r))) = (Inr toks', st)"
    by (rule sample_batch2_InrE)
  from init_tokens_shape [OF it] obtain row where row: "toks = [row]" "length row = ?L + 1"
    by auto
  have sh: "map length toks2 = replicate ?R (?L + 1)"
    using repeat_rows_lengths [of dev n row toks2] rr row by simp
  have "map length toks' = replicate ?R (?L + 1)
      \<and> prefix_widths (calls st)
          = prefix_widths (calls (snd (call_encoder env batch (init_state r))))
            @ map (replicate ?R) [1..<?L + 1]"
    by (rule for_loop_trace [OF l, where P = "\<lambda>x. map length x = replicate ?R (?L + 1)"
          and f = "\<lambda>s. prefix_widths (calls s)"])
       (use sh in \<open>auto dest: batch2_step_widths simp del: upt_Suc\<close>)
  then show ?thesis by (simp add: encoder_widths del: upt_Suc)
qed

lemma call_decoder_rng: "rng (snd (call_decoder env toks eo st)) = rng st"
  by (simp add: call_decoder_def split: prod.splits)

lemma sample_step_fixed:
  assumes "get_item toks 0 i = Inr t" and "t \<noteq> m"
  shows "rng (snd (sample_step env eo T m i toks st)) = rng st
       \<and> (\<forall>toks'. fst (sample_step env eo T m i toks st) = Inr toks' \<longrightarrow> toks' = toks)"
  using assms call_decoder_rng [of env "map (take i) toks" eo st]
  by (auto simp: sample_step_def split: prod.splits sum.splits)

lemma batch2_row_fixed:
  assumes "get_slice toks j i = Inr [t]" and "t \<noteq> m"
  shows "batch2_row env probs m i j toks st = (Inr toks, st)"
  using assms by (simp add: batch2_row_def)

subsection \<open>Runs on the concrete collaborators\<close>

lemmas eval_defs = test_defs run_defs upt_rec eval_nat_numeral

lemma run_sample_free:
  "sample test_env (test_coords 2) None 1 None None [1, 2]
     = (Inr ''AC'',
        \<lparr>incremental_state = [(''calls'', 2)], rng = [],
         calls = [EncoderCall,
           DecoderCall [[0]] [(''encoder_out'', 1), (''encoder_padding_mask'', 1)]
             [] [(''calls'', 1)],
           DecoderCall [[0, 1]] [(''encoder_out'', 1), (''encoder_padding_mask'', 1)]
             [(''calls'', 1)] [(''calls'', 2)]]\<rparr>)"
  by (simp add: eval_defs)

lemma run_sample_fixed:
  "sample test_env (test_coords 2) (Some [''A'', ''C'']) 1 None None []
     = (Inr ''AC'',
        \<lparr>incremental_state = [(''calls'', 2)], rng = [],
         calls = [EncoderCall,
           DecoderCall [[0]] [(''encoder_out'', 1), (''encoder_padding_mask'', 1)]
             [] [(''calls'', 1)],
           DecoderCall [[0, 1]] [(''encoder_out'', 1), (''encoder_padding_mask'', 1)]
             [(''calls'', 1)] [(''calls'', 2)]]\<rparr>)"
  by (simp add: eval_defs)

lemma run_sample_batch:
  "sample_batch test_env (test_coords 1) 2 None 1 None (Some ''cpu'') [1, 2]
     = (Inr [''A'', ''C''],
        \<lparr>incremental_state = [(''calls'', 2)], rng = [],
         calls = [EncoderCall,
           DecoderCall [[0]] [(''encoder_out'', 2), (''encoder_padding_mask'', 2)]
             [] [(''calls'', 1)],
           DecoderCall [[0]] [(''encoder_out'', 2), (''encoder_padding_mask'', 2)]
             [(''calls'', 1)] [(''calls'', 2)]]\<rparr>)"
  by (simp add: eval_defs)

lemma run_sample_batch2_fixed:
  "sample_batch2 test_env (test_coords 2) 2 (Some [''C'', ''A'']) 1 None (Some ''cpu'') []
     = (Inr [''CA'', ''CA''],
        \<lparr>incremental_state = [(''calls'', 2)], rng = [],
         calls = [EncoderCall,
           DecoderCall [[0], [0]] [(''encoder_out'', 2), (''encoder_padding_mask'', 2)]
             [] [(''calls'', 1)],
           DecoderCall [[0, 2], [0, 2]] [(''encoder_out'', 2), (''encoder_padding_mask'', 2)]
             [(''calls'', 1)] [(''calls'', 2)]]\<rparr>)"
  by (simp add: eval_defs)

subsection \<open>One call of the encoder\<close>

text \<open>
  Claim C7. In each of the three methods the log of calls is empty (the method failed
  before the encoder), or it is one call of the encoder followed by calls of the decoder
  only: the encoder is called before the decoding loop and never in it. Every call of
  the decoder receives an encoder output made from the result of that one call: the
  result itself in \<^verbatim>\<open>sample\<close>, a slice of it for one sample in \<^verbatim>\<open>sample_batch\<close>, the result
  repacked in \<^verbatim>\<open>sample_batch2\<close>. A method that returns has called the encoder exactly once.
\<close>

theorem encoder_called_once:
  "encoder_first
     (\<lambda>a. \<exists>batch. batch_converter env [(coords, conf)] dev = Inr batch \<and> encoder env batch = Inr a)
     (calls (snd (sample env coords ps T conf dev r)))
   \<and> (\<forall>s. fst (sample env coords ps T conf dev r) = Inr s \<longrightarrow>
         length (filter is_EncoderCall (calls (snd (sample env coords ps T conf dev r)))) = 1)
   \<and> encoder_first
       (\<lambda>a. \<exists>batch all_eo k. batch_converter env (replicate (nat n) (coords, conf)) dev = Inr batch
               \<and> encoder env batch = Inr all_eo \<and> slice_encoder_out env all_eo k = Inr a)
       (calls (snd (sample_batch env coords n ps T conf dev r)))
   \<and> (\<forall>ss. fst (sample_batch env coords n ps T conf dev r) = Inr ss \<longrightarrow>
         length (filter is_EncoderCall (calls (snd (sample_batch env coords n ps T conf dev r)))) = 1)
   \<and> encoder_first
       (\<lambda>a. \<exists>batch all_eo. batch_converter env (replicate (nat n) (coords, conf)) dev = Inr batch
               \<and> encoder env batch = Inr all_eo \<and> repack_encoder_out env all_eo = Inr a)
       (calls (snd (sample_batch2 env coords n ps T conf dev r)))
   \<and> (\<forall>ss. fst (sample_batch2 env coords n ps T conf dev r) = Inr ss \<longrightarrow>
         length (filter is_EncoderCall (calls (snd (sample_batch2 env coords n ps T conf dev r)))) = 1)"
proof -
  let ?P1 = "\<lambda>a. \<exists>batch. batch_converter env [(coords, conf)] dev = Inr batch
                 \<and> encoder env batch = Inr a"
  let ?P2 = "\<lambda>a. \<exists>batch all_eo k. batch_converter env (replicate (nat n) (coords, conf)) dev = Inr batch
               \<and> encoder env batch = Inr all_eo \<and> slice_encoder_out env all_eo k = Inr a"
  let ?P3 = "\<lambda>a. \<exists>batch all_eo. batch_converter env (replicate (nat n) (coords, conf)) dev = Inr batch
               \<and> encoder env batch = Inr all_eo \<and> repack_encoder_out env all_eo = Inr a"
  let ?s1 = "sample env coords ps T conf dev r"
  let ?s2 = "sample_batch env coords n ps T conf dev r"
  let ?s3 = "sample_batch2 env coords n ps T conf dev r"
  have a: "encoder_first ?P1 (calls (snd ?s1))
      \<and> (\<forall>s. fst ?s1 = Inr s \<longrightarrow> length (filter is_EncoderCall (calls (snd ?s1))) = 1)"
  proof (cases rule: sample_cases [of env coords ps T conf dev r])
    case (early e)
    then show ?thesis by (simp add: init_state_def encoder_first_def)
  next
    case (encoded batch)
    have t: "decoder_trace ?P1 (snd (call_encoder env batch (init_state r))) (snd ?s1)"
      using encoded by (auto intro: decoder_trace_mono)
    show ?thesis
      using after_encoder [OF t] after_encoder_nonempty [OF t] encoder_first_count by blast
  qed
  have b: "encoder_first ?P2 (calls (snd ?s2))
      \<and> (\<forall>s. fst ?s2 = Inr s \<longrightarrow> length (filter is_EncoderCall (calls (snd ?s2))) = 1)"
  proof (cases rule: sample_batch_cases [of env coords n ps T conf dev r])
    case (early e)
    then show ?thesis by (simp add: init_state_def encoder_first_def)
  next
    case (encoded batch)
    have t: "decoder_trace ?P2 (snd (call_encoder env batch (init_state r))) (snd ?s2)"
      using encoded by (auto intro: decoder_trace_mono)
    show ?thesis
      using after_encoder [OF t] after_encoder_nonempty [OF t] encoder_first_count by blast
  qed
  have c: "encoder_first ?P3 (calls (snd ?s3))
      \<and> (\<forall>s. fst ?s3 = Inr s \<longrightarrow> length (filter is_EncoderCall (calls (snd ?s3))) = 1)"
  proof (cases rule: sample_batch2_cases [of env coords n ps T conf dev r])
    case (early e)
    then show ?thesis by (simp add: init_state_def encoder_first_def)
  next
    case (encoded batch)
    have t: "decoder_trace ?P3 (snd (call_encoder env batch (init_state r))) (snd ?s3)"
      using encoded by (auto intro: decoder_trace_mono)
    show ?thesis
      using after_encoder [OF t] after_encoder_nonempty [OF t] encoder_first_count by blast
  qed
  show ?thesis using a b c by blast
qed

theorem encoder_called_once_witness:
  "fst (sample test_env (test_coords 2) None 1 None None [1, 2]) = Inr ''AC''
   \<and> length (filter is_EncoderCall
        (calls (snd (sample test_env (test_coords 2) None 1 None None [1, 2])))) = 1
   \<and> encoder_first (\<lambda>a. a = [(''encoder_out'', 1), (''encoder_padding_mask'', 1)])
        (calls (snd (sample test_env (test_coords 2) None 1 None None [1, 2])))
   \<and> fst (sample_batch test_env (test_coords 1) 2 None 1 None (Some ''cpu'') [1, 2])
       = Inr [''A'', ''C'']
   \<and> length (filter is_EncoderCall
        (calls (snd (sample_batch test_env (test_coords 1) 2 None 1 None (Some ''cpu'') [1, 2]))))
       = 1
   \<and> fst (sample_batch2 test_env (test_coords 2) 2 (Some [''C'', ''A'']) 1 None (Some ''cpu'') [])
       = Inr [''CA'', ''CA'']
   \<and> length (filter is_EncoderCall
        (calls (snd (sample_batch2 test_env (test_coords 2) 2 (Some [''C'', ''A'']) 1 None
                       (Some ''cpu'') [])))) = 1"
proof -
  note a = encoder_called_once [where env = test_env and coords = "test_coords 2"
      and conf = None and dev = None and ps = None and T = 1 and r = "[1, 2]" and n = 1]
  note b = encoder_called_once [where env = test_env and coords = "test_coords 1"
      and conf = None and dev = "Some ''cpu''" and n = 2 and ps = None and T = 1
      and r = "[1, 2]"]
  note c = encoder_called_once [where env = test_env and coords = "test_coords 2"
      and conf = None and dev = "Some ''cpu''" and n = 2 and ps = "Some [''C'', ''A'']"
      and T = 1 and r = "[]"]
  have "encoder_first (\<lambda>a. a = [(''encoder_out'', 1), (''encoder_padding_mask'', 1)])
        (calls (snd (sample test_env (test_coords 2) None 1 None None [1, 2])))"
    unfolding run_sample_free by (simp add: encoder_first_def)
  then show ?thesis
    using a b c unfolding run_sample_free run_sample_batch run_sample_batch2_fixed by simp
qed

subsection \<open>One cache for all the samples of sample_batch\<close>

text \<open>
  Claim C3. In \<^verbatim>\<open>sample_batch\<close> the decoder calls of the whole method form one chain that
  starts with the empty dict: every call receives the cache as the call before it left
  it, also when that call belongs to the loop of the sample before, and the cache is
  never reset in between. When the method returns, the chain holds the calls of all
  samples: the prefixes of \<open>1 .. L\<close> columns, \<^verbatim>\<open>num_samples\<close> times over.
\<close>

theorem sample_batch_shares_cache:
  "chain_from [] (calls (snd (sample_batch env coords n ps T conf dev r)))
     = Some (incremental_state (snd (sample_batch env coords n ps T conf dev r)))
   \<and> (\<forall>ss. fst (sample_batch env coords n ps T conf dev r) = Inr ss \<longrightarrow>
        prefix_widths (calls (snd (sample_batch env coords n ps T conf dev r)))
          = concat (replicate (nat n) (map (replicate 1) [1..<length coords + 1])))"
proof -
  let ?s2 = "sample_batch env coords n ps T conf dev r"
  have "chain_from [] (calls (snd ?s2)) = Some (incremental_state (snd ?s2))"
  proof (cases rule: sample_batch_cases [of env coords n ps T conf dev r])
    case (early e)
    then show ?thesis by (simp add: init_state_def)
  next
    case (encoded batch)
    from after_encoder [OF encoded(2)] show ?thesis by simp
  qed
  moreover have "prefix_widths (calls (snd ?s2))
          = concat (replicate (nat n) (map (replicate 1) [1..<length coords + 1]))"
    if "fst ?s2 = Inr ss" for ss
    using sample_batch_widths [of env coords n ps T conf dev r ss "snd ?s2"] that
    by (metis prod.collapse)
  ultimately show ?thesis by blast
qed

theorem sample_batch_shares_cache_witness:
  "fst (sample_batch test_env (test_coords 1) 2 None 1 None (Some ''cpu'') [1, 2])
     = Inr [''A'', ''C'']
   \<and> calls (snd (sample_batch test_env (test_coords 1) 2 None 1 None (Some ''cpu'') [1, 2]))
     = [EncoderCall,
        DecoderCall [[0]] [(''encoder_out'', 2), (''encoder_padding_mask'', 2)]
          [] [(''calls'', 1)],
        DecoderCall [[0]] [(''encoder_out'', 2), (''encoder_padding_mask'', 2)]
          [(''calls'', 1)] [(''calls'', 2)]]
   \<and> chain_from []
        (calls (snd (sample_batch test_env (test_coords 1) 2 None 1 None (Some ''cpu'') [1, 2])))
     = Some [(''calls'', 2)]
   \<and> prefix_widths
        (calls (snd (sample_batch test_env (test_coords 1) 2 None 1 None (Some ''cpu'') [1, 2])))
     = [[1], [1]]"
proof -
  note a = sample_batch_shares_cache [where env = test_env and coords = "test_coords 1"
      and n = 2 and ps = None and T = 1 and conf = None and dev = "Some ''cpu''"
      and r = "[1, 2]"]
  have w: "concat (replicate (nat 2) (map (replicate 1) [1..<length (test_coords 1) + 1]))
             = [[1], [1]]"
    by (simp add: test_coords_def eval_nat_numeral)
  show ?thesis using a unfolding run_sample_batch w
    by (simp add: prefix_widths_def decoder_calls_def)
qed

subsection \<open>One call of the decoder for every position\<close>

text \<open>
  Claim C6. A method that returns has called the decoder once for every position
  \<open>i = 1 .. L\<close> of every decoding loop, with the prefix of \<open>i\<close> columns, whatever the
  number of fixed positions: \<open>L\<close> calls in \<^verbatim>\<open>sample\<close> and in \<^verbatim>\<open>sample_batch2\<close>, \<open>L\<close> calls
  for each sample in \<^verbatim>\<open>sample_batch\<close>. At a fixed position (its value is not the mask
  index) the step of \<^verbatim>\<open>sample\<close> and \<^verbatim>\<open>sample_batch\<close> still calls the decoder once, draws
  nothing and leaves the buffer as it is; in \<^verbatim>\<open>sample_batch2\<close> a fixed row is skipped
  after the decoder call of the step.
\<close>

theorem decoder_called_every_step:
  "(\<forall>s. fst (sample env coords ps T conf dev r) = Inr s \<longrightarrow>
       prefix_widths (calls (snd (sample env coords ps T conf dev r)))
         = map (replicate 1) [1..<length coords + 1])
   \<and> (\<forall>ss. fst (sample_batch env coords n ps T conf dev r) = Inr ss \<longrightarrow>
       prefix_widths (calls (snd (sample_batch env coords n ps T conf dev r)))
         = concat (replicate (nat n) (map (replicate 1) [1..<length coords + 1])))
   \<and> (\<forall>ss. fst (sample_batch2 env coords n ps T conf dev r) = Inr ss \<longrightarrow>
       prefix_widths (calls (snd (sample_batch2 env coords n ps T conf dev r)))
         = map (replicate (if truthy dev then nat n else 1)) [1..<length coords + 1])
   \<and> (\<forall>t. get_item toks 0 i = Inr t \<and> t \<noteq> m \<longrightarrow>
         calls (snd (sample_step env eo T m i toks st))
           = calls st @ [DecoderCall (map (take i) toks) eo (incremental_state st)
                           (incremental_state (snd (sample_step env eo T m i toks st)))]
         \<and> rng (snd (sample_step env eo T m i toks st)) = rng st
         \<and> (\<forall>toks'. fst (sample_step env eo T m i toks st) = Inr toks' \<longrightarrow> toks' = toks))
   \<and> (\<forall>t. get_slice toks j i = Inr [t] \<and> t \<noteq> m \<longrightarrow>
         batch2_row env probs m i j toks st = (Inr toks, st))"
proof -
  have a: "prefix_widths (calls (snd (sample env coords ps T conf dev r)))
         = map (replicate 1) [1..<length coords + 1]"
    if "fst (sample env coords ps T conf dev r) = Inr s" for s
    using sample_widths [of env coords ps T conf dev r s
        "snd (sample env coords ps T conf dev r)"] that
    by (metis prod.collapse)
  have b: "prefix_widths (calls (snd (sample_batch env coords n ps T conf dev r)))
         = concat (replicate (nat n) (map (replicate 1) [1..<length coords + 1]))"
    if "fst (sample_batch env coords n ps T conf dev r) = Inr ss" for ss
    using sample_batch_widths [of env coords n ps T conf dev r ss
        "snd (sample_batch env coords n ps T conf dev r)"] that
    by (metis prod.collapse)
  have c: "prefix_widths (calls (snd (sample_batch2 env coords n ps T conf dev r)))
         = map (replicate (if truthy dev then nat n else 1)) [1..<length coords + 1]"
    if "fst (sample_batch2 env coords n ps T conf dev r) = Inr ss" for ss
    using sample_batch2_widths [of env coords n ps T conf dev r ss
        "snd (sample_batch2 env coords n ps T conf dev r)"] that
    by (metis prod.collapse)
  have d: "calls (snd (sample_step env eo T m i toks st))
           = calls st @ [DecoderCall (map (take i) toks) eo (incremental_state st)
                           (incremental_state (snd (sample_step env eo T m i toks st)))]"
    using sample_step_calls' [of env eo T m i toks st "fst (sample_step env eo T m i toks st)"
        "snd (sample_step env eo T m i toks st)"] by simp
  show ?thesis
    using a b c d sample_step_fixed [of toks i _ m env eo T st]
      batch2_row_fixed [of toks j i _ m env probs st]
    by blast
qed

theorem decoder_called_every_step_witness:
  "fst (sample test_env (test_coords 2) (Some [''A'', ''C'']) 1 None None []) = Inr ''AC''
   \<and> prefix_widths (calls (snd (sample test_env (test_coords 2) (Some [''A'', ''C'']) 1 None None [])))
       = [[1], [2]]
   \<and> rng (snd (sample test_env (test_coords 2) (Some [''A'', ''C'']) 1 None None [])) = []
   \<and> fst (sample_batch test_env (test_coords 1) 2 None 1 None (Some ''cpu'') [1, 2])
       = Inr [''A'', ''C'']
   \<and> prefix_widths
        (calls (snd (sample_batch test_env (test_coords 1) 2 None 1 None (Some ''cpu'') [1, 2])))
       = [[1], [1]]
   \<and> fst (sample_batch2 test_env (test_coords 2) 2 (Some [''C'', ''A'']) 1 None (Some ''cpu'') [])
       = Inr [''CA'', ''CA'']
   \<and> prefix_widths
        (calls (snd (sample_batch2 test_env (test_coords 2) 2 (Some [''C'', ''A'']) 1 None
                       (Some ''cpu'') [])))
       = [[1, 1], [2, 2]]
   \<and> get_item [[0, 2]] 0 1 = Inr 2 \<and> (2::int) \<noteq> 3
   \<and> sample_step test_env [] 1 3 1 [[0, 2]] (init_state [])
       = (Inr [[0, 2]],
          \<lparr>incremental_state = [(''calls'', 1)], rng = [],
           calls = [DecoderCall [[0]] [] [] [(''calls'', 1)]]\<rparr>)
   \<and> get_slice [[0, 2]] 0 1 = Inr [2]
   \<and> batch2_row test_env [] 3 1 0 [[0, 2]] (init_state [] :: (nat, nat, nat list) state)
       = (Inr [[0, 2]], init_state [])"
proof -
  note a = decoder_called_every_step [where env = test_env and coords = "test_coords 2"
      and ps = "Some [''A'', ''C'']" and T = 1 and conf = None and dev = None and r = "[]"
      and n = 2 and toks = "[[0, 2]]" and i = 1 and m = 3 and eo = "[]"
      and st = "init_state []" and j = 0 and probs = "[]"]
  have s: "sample_step test_env [] 1 3 1 [[0, 2]] (init_state [])
       = (Inr [[0, 2]],
          \<lparr>incremental_state = [(''calls'', 1)], rng = [],
           calls = [DecoderCall [[0]] [] [] [(''calls'', 1)]]\<rparr>)"
    by (simp add: eval_defs)
  have b: "batch2_row test_env [] 3 1 0 [[0, 2]] (init_state [] :: (nat, nat, nat list) state)
       = (Inr [[0, 2]], init_state [])"
    by (simp add: eval_defs)
  have g: "get_item [[0, 2]] 0 1 = Inr 2" "get_slice [[0, 2]] 0 1 = Inr [2]"
    by (simp_all add: get_item_def get_slice_def)
  show ?thesis
    using a g unfolding s b run_sample_fixed run_sample_batch run_sample_batch2_fixed
    by (simp add: prefix_widths_def decoder_calls_def test_coords_def init_state_def
        upt_rec eval_nat_numeral)
qed

subsection \<open>More runs on the concrete collaborators\<close>

lemma run_sample_mask:
  "sample test_env (test_coords 1) (Some [''<mask>'']) 1 None None [1]
     = (Inr ''A'',
        \<lparr>incremental_state = [(''calls'', 1)], rng = [],
         calls = [EncoderCall,
           DecoderCall [[0]] [(''encoder_out'', 1), (''encoder_padding_mask'', 1)]
             [] [(''calls'', 1)]]\<rparr>)"
  by (simp add: eval_defs)

lemma run_sample_partial:
  "sample test_env (test_coords 2) (Some [''A'', ''<mask>'']) 1 None None [2]
     = (Inr ''AC'',
        \<lparr>incremental_state = [(''calls'', 2)], rng = [],
         calls = [EncoderCall,
           DecoderCall [[0]] [(''encoder_out'', 1), (''encoder_padding_mask'', 1)]
             [] [(''calls'', 1)],
           DecoderCall [[0, 1]] [(''encoder_out'', 1), (''encoder_padding_mask'', 1)]
             [(''calls'', 1)] [(''calls'', 2)]]\<rparr>)"
  by (simp add: eval_defs)

lemma run_sample_special:
  "sample test_env (test_coords 1) None 1 None None [0]
     = (Inr ''<cath>'',
        \<lparr>incremental_state = [(''calls'', 1)], rng = [],
         calls = [EncoderCall,
           DecoderCall [[0]] [(''encoder_out'', 1), (''encoder_padding_mask'', 1)]
             [] [(''calls'', 1)]]\<rparr>)"
  by (simp add: eval_defs)

lemma run_sample_negative:
  "sample test_env (test_coords 1) None (- 1) None None [1]
     = (Inr ''A'',
        \<lparr>incremental_state = [(''calls'', 1)], rng = [],
         calls = [EncoderCall,
           DecoderCall [[0]] [(''encoder_out'', 1), (''encoder_padding_mask'', 1)]
             [] [(''calls'', 1)]]\<rparr>)"
  by (simp add: eval_defs)

lemma run_sample_negative2:
  "sample test_env (test_coords 1) None (- 2) None None [2]
     = (Inr ''C'',
        \<lparr>incremental_state = [(''calls'', 1)], rng = [],
         calls = [EncoderCall,
           DecoderCall [[0]] [(''encoder_out'', 1), (''encoder_padding_mask'', 1)]
             [] [(''calls'', 1)]]\<rparr>)"
  by (simp add: eval_defs)

lemma run_sample_batch2_free:
  "sample_batch2 test_env (test_coords 1) 1 None 1 None (Some ''cpu'') [0, 0, 0, 0, 0, 0, 0, 0]
     = (Inl RuntimeError,
        \<lparr>incremental_state = [(''calls'', 1)], rng = [],
         calls = [EncoderCall,
           DecoderCall [[0]] [(''encoder_out'', 1), (''encoder_padding_mask'', 1)]
             [] [(''calls'', 1)]]\<rparr>)"
  by (simp add: eval_defs)

subsection \<open>The buffers the strings are made from\<close>

lemma decode_eq:
  "decode env eo T m L toks st =
     (case decode_tokens env eo T m L toks st of
        (Inl e, st') \<Rightarrow> (Inl e, st')
      | (Inr toks', st') \<Rightarrow> (row_to_string env toks' 0, st'))"
  by (simp add: decode_def decode_tokens_def del: upt_Suc)

lemma sample_eq:
  "sample env coords ps T conf dev r =
     (case sample_tokens env coords ps T conf dev r of
        (Inl e, st) \<Rightarrow> (Inl e, st)
      | (Inr toks', st) \<Rightarrow> (row_to_string env toks' 0, st))"
  by (simp add: sample_def sample_tokens_def decode_eq call_encoder_def Let_def
      split: sum.splits prod.splits)

lemma sample_batch2_eq:
  "sample_batch2 env coords n ps T conf dev r =
     (case sample_batch2_tokens env coords n ps T conf dev r of
        (Inl e, st) \<Rightarrow> (Inl e, st)
      | (Inr toks', st) \<Rightarrow> (collect_strings env toks' [0..<nat n] [], st))"
  by (simp add: sample_batch2_def sample_batch2_tokens_def call_encoder_def Let_def
      del: upt_Suc split: sum.splits prod.splits)

lemma same_outcome_Inl: "same_outcome R (Inl e, s) (Inl e, s)"
  by (simp add: same_outcome_def)

lemma same_outcome_Inr: "R x y \<Longrightarrow> same_outcome R (Inr x, s) (Inr y, s)"
  by (simp add: same_outcome_def)

lemma same_outcome_cases:
  assumes "same_outcome R a b"
  obtains (fail) e s where "a = (Inl e, s)" "b = (Inl e, s)"
  | (ok) x y s where "a = (Inr x, s)" "b = (Inr y, s)" "R x y"
proof -
  obtain ra sa rb sb where ab: "a = (ra, sa)" "b = (rb, sb)" by (cases a, cases b)
  show ?thesis
  proof (cases ra)
    case (Inl e)
    then show ?thesis using assms ab fail by (cases rb) (auto simp: same_outcome_def)
  next
    case (Inr x)
    then show ?thesis using assms ab ok by (cases rb) (auto simp: same_outcome_def)
  qed
qed

lemma for_loop_sim:
  assumes "R x y"
    and "\<And>i x y s. i \<in> set is \<Longrightarrow> R x y \<Longrightarrow> same_outcome R (body i x s) (body' i y s)"
  shows "same_outcome R (for_loop is body x s) (for_loop is body' y s)"
  using assms
proof (induction "is" arbitrary: x y s)
  case Nil
  then show ?case by (simp add: same_outcome_Inr)
next
  case (Cons i "is")
  have "same_outcome R (body i x s) (body' i y s)" using Cons.prems by simp
  then show ?case
  proof (cases rule: same_outcome_cases)
    case (fail e s')
    then show ?thesis by (simp add: same_outcome_Inl)
  next
    case (ok x' y' s')
    have "same_outcome R (for_loop is body x' s') (for_loop is body' y' s')"
      using ok(3) Cons.prems(2) by (intro Cons.IH) auto
    then show ?thesis using ok by simp
  qed
qed

lemma batch_sample_sim:
  assumes "list_all2 (\<lambda>t s. row_to_string env t 0 = Inr s) bufs seqs"
  shows "same_outcome (list_all2 (\<lambda>t s. row_to_string env t 0 = Inr s))
           (batch_sample_tokens env all_eo ats T m L k bufs st)
           (batch_sample env all_eo ats T m L k seqs st)"
proof (cases ats)
  case None
  then show ?thesis by (simp add: batch_sample_tokens_def batch_sample_def same_outcome_Inl)
next
  case (Some ts)
  show ?thesis
  proof (cases "k < length ts")
    case False
    then show ?thesis using Some
      by (simp add: batch_sample_tokens_def batch_sample_def same_outcome_Inl)
  next
    case True
    show ?thesis
    proof (cases "slice_encoder_out env all_eo k")
      case (Inl e)
      then show ?thesis using Some True
        by (simp add: batch_sample_tokens_def batch_sample_def same_outcome_Inl)
    next
      case (Inr eo)
      obtain res st' where d: "decode_tokens env eo T m L (ts ! k) st = (res, st')"
        by (cases "decode_tokens env eo T m L (ts ! k) st")
      show ?thesis
      proof (cases res)
        case (Inl e)
        then show ?thesis using Some True Inr d
          by (simp add: batch_sample_tokens_def batch_sample_def decode_eq same_outcome_Inl)
      next
        case t: (Inr toks')
        show ?thesis
        proof (cases "row_to_string env toks' 0")
          case (Inl e)
          then show ?thesis using Some True Inr d t
            by (simp add: batch_sample_tokens_def batch_sample_def decode_eq same_outcome_Inl)
        next
          case s: (Inr str)
          have "list_all2 (\<lambda>t s. row_to_string env t 0 = Inr s) (bufs @ [toks']) (seqs @ [str])"
            using assms s by (simp add: list_all2_appendI)
          then show ?thesis using Some True Inr d t s
            by (simp add: batch_sample_tokens_def batch_sample_def decode_eq same_outcome_Inr)
        qed
      qed
    qed
  qed
qed

lemma sample_batch_sim:
  "same_outcome (list_all2 (\<lambda>t s. row_to_string env t 0 = Inr s))
     (sample_batch_tokens env coords n ps T conf dev r)
     (sample_batch env coords n ps T conf dev r)"
proof (cases "batch_converter env (replicate (nat n) (coords, conf)) dev")
  case (Inl e)
  then show ?thesis by (simp add: sample_batch_tokens_def sample_batch_def same_outcome_Inl)
next
  case bc: (Inr batch)
  show ?thesis
  proof (cases "init_tokens env (length coords) ps")
    case (Inl e)
    then show ?thesis using bc
      by (simp add: sample_batch_tokens_def sample_batch_def same_outcome_Inl)
  next
    case (Inr mt)
    obtain m toks where mt: "mt = (m, toks)" by (cases mt)
    show ?thesis
    proof (cases "encoder env batch")
      case (Inl e)
      then show ?thesis using bc Inr mt
        by (simp add: sample_batch_tokens_def sample_batch_def call_encoder_def same_outcome_Inl)
    next
      case eo: (Inr all_eo)
      let ?ats = "if truthy dev then Some (replicate (nat n) toks) else None"
      let ?st = "snd (call_encoder env batch (init_state r))"
      have "same_outcome (list_all2 (\<lambda>t s. row_to_string env t 0 = Inr s))
              (for_loop [0..<nat n] (batch_sample_tokens env all_eo ?ats T m (length coords)) [] ?st)
              (for_loop [0..<nat n] (batch_sample env all_eo ?ats T m (length coords)) [] ?st)"
        by (rule for_loop_sim) (simp_all add: batch_sample_sim)
      then show ?thesis using bc Inr mt eo
        by (simp add: sample_batch_tokens_def sample_batch_def call_encoder_def)
    qed
  qed
qed

lemma sample_batch_buffers:
  assumes "fst (sample_batch env coords n ps T conf dev r) = Inr ss"
  shows "\<exists>bufs. fst (sample_batch_tokens env coords n ps T conf dev r) = Inr bufs
           \<and> list_all2 (\<lambda>t s. row_to_string env t 0 = Inr s) bufs ss"
  using sample_batch_sim [of env coords n ps T conf dev r] assms
  by (cases rule: same_outcome_cases) auto

lemma sample_tokens_InrE:
  assumes "sample_tokens env coords ps T conf dev r = (Inr toks', st)"
  obtains batch m toks eo where
    "batch_converter env [(coords, conf)] dev = Inr batch"
    "init_tokens env (length coords) ps = Inr (m, toks)"
    "encoder env batch = Inr eo"
    "decode_tokens env eo T m (length coords) toks (snd (call_encoder env batch (init_state r)))
       = (Inr toks', st)"
proof (cases "batch_converter env [(coords, conf)] dev")
  case (Inl e)
  then show ?thesis using assms by (simp add: sample_tokens_def)
next
  case bc: (Inr batch)
  show ?thesis
  proof (cases "init_tokens env (length coords) ps")
    case (Inl e)
    then show ?thesis using assms bc by (simp add: sample_tokens_def)
  next
    case (Inr mt)
    obtain m toks where mt: "mt = (m, toks)" by (cases mt)
    show ?thesis
    proof (cases "encoder env batch")
      case (Inl e)
      then show ?thesis using assms bc Inr mt by (simp add: sample_tokens_def call_encoder_def)
    next
      case eo: (Inr eo)
      have "decode_tokens env eo T m (length coords) toks
              (snd (call_encoder env batch (init_state r))) = (Inr toks', st)"
        using assms bc Inr mt eo by (simp add: sample_tokens_def call_encoder_def)
      then show ?thesis using that bc Inr mt eo by blast
    qed
  qed
qed

lemma sample_batch_tokens_InrE:
  assumes "sample_batch_tokens env coords n ps T conf dev r = (Inr bufs, st)"
  obtains batch m toks all_eo where
    "batch_converter env (replicate (nat n) (coords, conf)) dev = Inr batch"
    "init_tokens env (length coords) ps = Inr (m, toks)"
    "encoder env batch = Inr all_eo"
    "for_loop [0..<nat n]
       (batch_sample_tokens env all_eo
          (if truthy dev then Some (replicate (nat n) toks) else None) T m (length coords))
       [] (snd (call_encoder env batch (init_state r))) = (Inr bufs, st)"
proof (cases "batch_converter env (replicate (nat n) (coords, conf)) dev")
  case (Inl e)
  then show ?thesis using assms by (simp add: sample_batch_tokens_def)
next
  case bc: (Inr batch)
  show ?thesis
  proof (cases "init_tokens env (length coords) ps")
    case (Inl e)
    then show ?thesis using assms bc by (simp add: sample_batch_tokens_def)
  next
    case (Inr mt)
    obtain m toks where mt: "mt = (m, toks)" by (cases mt)
    show ?thesis
    proof (cases "encoder env batch")
      case (Inl e)
      then show ?thesis using assms bc Inr mt
        by (simp add: sample_batch_tokens_def call_encoder_def)
    next
      case eo: (Inr all_eo)
      have "for_loop [0..<nat n]
         (batch_sample_tokens env all_eo
            (if truthy dev then Some (replicate (nat n) toks) else None) T m (length coords))
         [] (snd (call_encoder env batch (init_state r))) = (Inr bufs, st)"
        using assms bc Inr mt eo by (simp add: sample_batch_tokens_def call_encoder_def)
      then show ?thesis using that bc Inr mt eo by blast
    qed
  qed
qed

lemma sample_batch2_tokens_InrE:
  assumes "sample_batch2_tokens env coords n ps T conf dev r = (Inr toks', st)"
  obtains batch m toks all_eo toks2 eo where
    "batch_converter env (replicate (nat n) (coords, conf)) dev = Inr batch"
    "init_tokens env (length coords) ps = Inr (m, toks)"
    "encoder env batch = Inr all_eo"
    "repeat_rows dev n toks = Inr toks2"
    "repack_encoder_out env all_eo = Inr eo"
    "for_loop [1..<length coords + 1] (batch2_step env eo T m) toks2
       (snd (call_encoder env batch (init_state r))) = (Inr toks', st)"
proof (cases "batch_converter env (replicate (nat n) (coords, conf)) dev")
  case (Inl e)
  then show ?thesis using assms by (simp add: sample_batch2_tokens_def)
next
  case bc: (Inr batch)
  show ?thesis
  proof (cases "init_tokens env (length coords) ps")
    case (Inl e)
    then show ?thesis using assms bc by (simp add: sample_batch2_tokens_def)
  next
    case (Inr mt)
    obtain m toks where mt: "mt = (m, toks)" by (cases mt)
    show ?thesis
    proof (cases "encoder env batch")
      case (Inl e)
      then show ?thesis using assms bc Inr mt
        by (simp add: sample_batch2_tokens_def call_encoder_def)
    next
      case eo: (Inr all_eo)
      show ?thesis
      proof (cases "repeat_rows dev n toks")
        case (Inl e)
        then show ?thesis using assms bc Inr mt eo
          by (simp add: sample_batch2_tokens_def call_encoder_def)
      next
        case rr: (Inr toks2)
        show ?thesis
        proof (cases "repack_encoder_out env all_eo")
          case (Inl e)
          then show ?thesis using assms bc Inr mt eo rr
            by (simp add: sample_batch2_tokens_def call_encoder_def)
        next
          case rp: (Inr eo2)
          have "for_loop [1..<length coords + 1] (batch2_step env eo2 T m) toks2
                  (snd (call_encoder env batch (init_state r))) = (Inr toks', st)"
            using assms bc Inr mt eo rr rp
            by (simp add: sample_batch2_tokens_def call_encoder_def del: upt_Suc)
          then show ?thesis using that bc Inr mt eo rr rp by blast
        qed
      qed
    qed
  qed
qed

subsection \<open>Positions that keep their value\<close>

lemma keeps_refl: "keeps m t t"
  by (simp add: keeps_def list_all2_refl)

lemma keeps_trans: "keeps m t t' \<Longrightarrow> keeps m t' t'' \<Longrightarrow> keeps m t t''"
proof -
  have inner: "list_all2 (\<lambda>a a'. a = m \<or> a' = a) r r''"
    if "list_all2 (\<lambda>a a'. a = m \<or> a' = a) r r'" "list_all2 (\<lambda>a a'. a = m \<or> a' = a) r' r''"
    for r r' r''
    using that by (rule list_all2_trans [rotated]) auto
  assume "keeps m t t'" "keeps m t' t''"
  then show ?thesis
    unfolding keeps_def by (rule list_all2_trans [rotated]) (rule inner)
qed

lemma keeps_length: "keeps m t t' \<Longrightarrow> length t' = length t"
  by (simp add: keeps_def list_all2_lengthD)

lemma keeps_nth:
  assumes "keeps m t t'" and "r < length t"
  shows "length (t' ! r) = length (t ! r)
       \<and> (\<forall>c<length (t ! r). t ! r ! c \<noteq> m \<longrightarrow> t' ! r ! c = t ! r ! c)"
proof -
  have row: "list_all2 (\<lambda>a a'. a = m \<or> a' = a) (t ! r) (t' ! r)"
    using assms by (simp add: keeps_def list_all2_nthD)
  then have "length (t' ! r) = length (t ! r)" by (simp add: list_all2_lengthD)
  moreover have "t' ! r ! c = t ! r ! c" if "c < length (t ! r)" "t ! r ! c \<noteq> m" for c
    using list_all2_nthD [OF row that(1)] that(2) by simp
  ultimately show ?thesis by blast
qed

lemma row_update_keeps:
  "i < length row \<Longrightarrow> row ! i = m \<Longrightarrow> list_all2 (\<lambda>a a'. a = m \<or> a' = a) row (row[i := v])"
  by (auto simp: list_all2_conv_all_nth nth_list_update)

lemma row_keeps_refl: "list_all2 (\<lambda>a a'. a = m \<or> a' = a) row row"
  by (simp add: list_all2_refl)

lemma set_column_keeps:
  assumes "get_item [row] 0 i = Inr m" and "set_column [row] i vals = Inr t'"
  shows "keeps m [row] t'"
proof -
  have i: "i < length row" "row ! i = m"
    using assms(1) by (auto simp: get_item_def split: if_splits)
  from assms(2) obtain v where "t' = [row[i := v]]"
    by (cases vals) (auto simp: set_column_def split: if_splits)
  then show ?thesis using row_update_keeps [OF i] by (simp add: keeps_def)
qed

lemma set_slice_keeps:
  assumes "get_slice t j i = Inr (m # rest)" and "set_slice t j i vals = Inr t'"
  shows "keeps m t t'"
proof -
  have j: "j < length t" "i < length (t ! j)" "t ! j ! i = m"
    using assms(1) by (auto simp: get_slice_def split: if_splits)
  from assms(2) j have t': "t' = t[j := (t ! j)[i := hd vals]]"
    by (auto simp: set_slice_def split: if_splits)
  show ?thesis
    unfolding keeps_def t'
    using j row_update_keeps [OF j(2,3)]
    by (auto simp: list_all2_conv_all_nth nth_list_update row_keeps_refl)
qed

lemma sample_step_keeps:
  assumes "sample_step env eo T m i [row] st = (Inr toks', st')"
  shows "keeps m [row] toks'"
proof -
  from assms obtain t where g: "get_item [row] 0 i = Inr t"
    by (auto simp: sample_step_def split: prod.splits sum.splits)
  show ?thesis
  proof (cases "t = m")
    case True
    then obtain vals where "set_column [row] i vals = Inr toks'"
      using assms g by (auto simp: sample_step_def split: prod.splits sum.splits)
    then show ?thesis using set_column_keeps g True by blast
  next
    case False
    then have "toks' = [row]"
      using assms g by (auto simp: sample_step_def split: prod.splits sum.splits)
    then show ?thesis by (simp add: keeps_refl)
  qed
qed

lemma keeps_single: "keeps m [row] t' \<Longrightarrow> \<exists>row'. t' = [row']"
  by (cases t') (auto simp: keeps_def)

lemma batch2_row_keeps:
  assumes "batch2_row env probs m i j toks st = (Inr toks', st')"
  shows "keeps m toks toks'"
proof -
  from assms obtain t rest where g: "get_slice toks j i = Inr (t # rest)"
    by (auto simp: batch2_row_def split: sum.splits list.splits)
  show ?thesis
  proof (cases "t = m")
    case True
    then obtain vals where "set_slice toks j i vals = Inr toks'"
      using assms g by (auto simp: batch2_row_def split: prod.splits sum.splits)
    then show ?thesis using set_slice_keeps g True by blast
  next
    case False
    then have "toks' = toks"
      using assms g by (auto simp: batch2_row_def split: prod.splits sum.splits)
    then show ?thesis by (simp add: keeps_refl)
  qed
qed

lemma batch2_step_keeps:
  assumes "batch2_step env eo T m i toks st = (Inr toks', st')"
  shows "keeps m toks toks'"
proof -
  from assms obtain logits st1 where
    l: "for_loop [0..<length logits] (batch2_row env (batch2_probs env logits T) m i) toks st1
          = (Inr toks', st')"
    by (auto simp: batch2_step_def split: prod.splits sum.splits)
  show ?thesis
    by (rule for_loop_success [OF l, where P = "\<lambda>x s. keeps m toks x"])
       (auto intro: keeps_refl keeps_trans dest: batch2_row_keeps)
qed

lemma symbols_of_nth:
  assumes "symbols_of env row = Inr syms"
  shows "length syms = length row \<and> (\<forall>p<length row. get_tok env (row ! p) = Some (syms ! p))"
proof -
  have a: "list_all (\<lambda>a. get_tok env a \<noteq> None) row"
    and s: "syms = map (\<lambda>a. the (get_tok env a)) row"
    using assms by (auto simp: symbols_of_def split: if_splits)
  have "get_tok env (row ! p) = Some (syms ! p)" if "p < length row" for p
    using a s that by (auto simp: list_all_length)
  then show ?thesis using s by simp
qed

lemma row_to_string_nth:
  assumes "row_to_string env t r = Inr s"
  shows "\<exists>syms. s = concat syms \<and> length syms = length (t ! r) - 1
           \<and> (\<forall>p. p + 1 < length (t ! r) \<longrightarrow> get_tok env (t ! r ! (p + 1)) = Some (syms ! p))"
proof -
  from assms obtain syms where sy: "symbols_of env (drop 1 (t ! r)) = Inr syms"
    and s: "s = concat syms"
    by (auto simp: row_to_string_def split: if_splits sum.splits)
  from symbols_of_nth [OF sy] show ?thesis using s by (auto simp: add.commute)
qed

lemma row_to_string_row: "row_to_string env t k = Inr s \<Longrightarrow> k < length t"
  by (auto simp: row_to_string_def split: if_splits)

lemma decode_tokens_keeps:
  assumes "decode_tokens env eo T m L [row] st = (Inr toks', st')"
  shows "keeps m [row] toks'"
proof (rule for_loop_success [OF assms [unfolded decode_tokens_def],
      where P = "\<lambda>x s. keeps m [row] x"])
  show "keeps m [row] [row]" by (rule keeps_refl)
next
  fix i x s x' s'
  assume k: "keeps m [row] x" and b: "sample_step env eo T m i x s = (Inr x', s')"
  from keeps_single [OF k] obtain r where "x = [r]" by blast
  then have "keeps m x x'" using sample_step_keeps b by blast
  then show "keeps m [row] x'" using k by (rule keeps_trans [rotated])
qed

lemma symbol_atI:
  assumes "row_to_string env t r = Inr s" and "p + 1 < length (t ! r)"
    and "get_tok env (t ! r ! (p + 1)) = Some c"
  shows "symbol_at env (t ! r) p c s"
proof -
  from assms(1) obtain syms where sy: "symbols_of env (drop 1 (t ! r)) = Inr syms"
    and s: "s = concat syms"
    by (auto simp: row_to_string_def split: if_splits sum.splits)
  from symbols_of_nth [OF sy] have len: "length syms = length (t ! r) - 1"
    and nth: "\<forall>q<length (t ! r) - 1. get_tok env (drop 1 (t ! r) ! q) = Some (syms ! q)"
    by auto
  have p: "p < length syms" using len assms(2) by simp
  have "get_tok env (drop 1 (t ! r) ! p) = Some (syms ! p)" using nth p len by simp
  then have c: "syms ! p = c" using assms(2,3) by (simp add: add.commute)
  have "concat syms = concat (take p syms) @ syms ! p @ concat (drop (Suc p) syms)"
    using id_take_nth_drop [OF p] by (metis concat.simps(2) concat_append)
  then show ?thesis using sy s p c by (simp add: symbol_at_def)
qed

lemma kept_row_symbol:
  assumes k: "keeps m t t'" and r: "r < length t" and len: "length (t ! r) = L + 1"
    and p: "p < L" and v: "t ! r ! (p + 1) = k" "k \<noteq> m" and tok: "get_tok env k = Some c"
    and s: "row_to_string env t' r = Inr s"
  shows "length (t' ! r) = L + 1 \<and> t' ! r ! (p + 1) = k \<and> symbol_at env (t' ! r) p c s"
proof -
  from keeps_nth [OF k r] len p v
  have a: "length (t' ! r) = L + 1" "t' ! r ! (p + 1) = k" by auto
  have "symbol_at env (t' ! r) p c s"
    by (rule symbol_atI [OF s]) (use a p tok in auto)
  then show ?thesis using a by simp
qed

lemma collect_strings_all:
  "collect_strings env t ks acc = Inr ss \<Longrightarrow>
   \<exists>strs. ss = acc @ strs \<and> list_all2 (\<lambda>k s. row_to_string env t k = Inr s) ks strs"
proof (induction ks arbitrary: acc)
  case Nil
  then show ?case by simp
next
  case (Cons k ks)
  from Cons.prems obtain str where r: "row_to_string env t k = Inr str"
    and c: "collect_strings env t ks (acc @ [str]) = Inr ss"
    by (auto split: sum.splits)
  from Cons.IH [OF c] obtain strs where "ss = (acc @ [str]) @ strs"
    "list_all2 (\<lambda>k s. row_to_string env t k = Inr s) ks strs" by blast
  then have "ss = acc @ (str # strs)"
    "list_all2 (\<lambda>k s. row_to_string env t k = Inr s) (k # ks) (str # strs)"
    using r by simp_all
  then show ?case by blast
qed

lemma collect_strings_rows:
  assumes "collect_strings env t [0..<n] [] = Inr ss"
  shows "length ss = n \<and> n \<le> length t \<and> (\<forall>j<n. row_to_string env t j = Inr (ss ! j))"
proof -
  from collect_strings_all [OF assms] have a:
    "list_all2 (\<lambda>k s. row_to_string env t k = Inr s) [0..<n] ss" by simp
  then have len: "length ss = n" by (simp add: list_all2_lengthD [symmetric])
  have nth: "row_to_string env t j = Inr (ss ! j)" if "j < n" for j
    using list_all2_nthD [OF a, of j] that by simp
  have "n \<le> length t"
  proof (cases n)
    case 0
    then show ?thesis by simp
  next
    case (Suc n')
    then have "row_to_string env t n' = Inr (ss ! n')" using nth by simp
    then show ?thesis using Suc row_to_string_row by fastforce
  qed
  then show ?thesis using len nth by blast
qed

lemma init_fixed:
  assumes "init_tokens env L (Some ps) = Inr (m, toks)"
    and "p < length ps" and "get_idx env (ps ! p) = Some k"
    and "get_idx env ''<mask>'' \<noteq> Some k"
  obtains row where "toks = [row]" "length row = L + 1" "row ! (p + 1) = k" "p < L" "k \<noteq> m"
proof -
  from init_tokens_row [OF assms(1)] obtain row where m: "get_idx env ''<mask>'' = Some m"
    and row: "toks = [row]" "length row = 1 + L"
    and w: "\<forall>p<length ps. get_idx env (ps ! p) = Some (row ! (p + 1)) \<and> p < L"
    by blast
  have "row ! (p + 1) = k" "p < L" "k \<noteq> m" using w assms(2,3,4) m by auto
  then show ?thesis using that row by simp
qed

lemma fixed_in_sample_tokens:
  assumes "sample_tokens env coords (Some ps) T conf dev r = (Inr toks', st)"
    and "p < length ps" and "get_idx env (ps ! p) = Some k"
    and "get_idx env ''<mask>'' \<noteq> Some k"
  shows "\<exists>m row. keeps m [row] toks' \<and> length row = length coords + 1 \<and> row ! (p + 1) = k
           \<and> p < length coords \<and> k \<noteq> m"
proof -
  from assms(1) obtain batch m toks eo where
    it: "init_tokens env (length coords) (Some ps) = Inr (m, toks)" and
    d: "decode_tokens env eo T m (length coords) toks
          (snd (call_encoder env batch (init_state r))) = (Inr toks', st)"
    by (rule sample_tokens_InrE)
  from it assms(2,3,4) obtain row where row: "toks = [row]" "length row = length coords + 1"
    "row ! (p + 1) = k" "p < length coords" "k \<noteq> m"
    by (rule init_fixed)
  have "keeps m [row] toks'" using decode_tokens_keeps d row(1) by blast
  then show ?thesis using row by blast
qed

lemma fixed_in_sample_batch_tokens:
  assumes "sample_batch_tokens env coords n (Some ps) T conf dev r = (Inr bufs, st)"
    and "p < length ps" and "get_idx env (ps ! p) = Some k"
    and "get_idx env ''<mask>'' \<noteq> Some k"
  shows "\<exists>m row. list_all (keeps m [row]) bufs \<and> length row = length coords + 1
           \<and> row ! (p + 1) = k \<and> p < length coords \<and> k \<noteq> m"
proof -
  let ?L = "length coords"
  from assms(1) obtain batch m toks all_eo where
    it: "init_tokens env ?L (Some ps) = Inr (m, toks)" and
    l: "for_loop [0..<nat n]
         (batch_sample_tokens env all_eo
            (if truthy dev then Some (replicate (nat n) toks) else None) T m ?L)
         [] (snd (call_encoder env batch (init_state r))) = (Inr bufs, st)"
    by (rule sample_batch_tokens_InrE)
  from it assms(2,3,4) obtain row where row: "toks = [row]" "length row = ?L + 1"
    "row ! (p + 1) = k" "p < ?L" "k \<noteq> m"
    by (rule init_fixed)
  have "list_all (keeps m [row]) bufs"
  proof (rule for_loop_success [OF l, where P = "\<lambda>x s. list_all (keeps m [row]) x"])
    show "list_all (keeps m [row]) []" by simp
  next
    fix j x s1 x' s1'
    assume inv: "list_all (keeps m [row]) x"
      and b: "batch_sample_tokens env all_eo
                (if truthy dev then Some (replicate (nat n) toks) else None) T m ?L j x s1
              = (Inr x', s1')"
    from b obtain ts eo t' where
      ats: "(if truthy dev then Some (replicate (nat n) toks) else None) = Some ts"
      and j: "j < length ts"
      and d: "decode_tokens env eo T m ?L (ts ! j) s1 = (Inr t', s1')" and x': "x' = x @ [t']"
      by (auto simp: batch_sample_tokens_def
          split: option.splits if_splits sum.splits prod.splits)
    have "ts ! j = [row]" using ats j row by (auto split: if_splits)
    then have "decode_tokens env eo T m ?L [row] s1 = (Inr t', s1')" using d by simp
    then have "keeps m [row] t'" by (rule decode_tokens_keeps)
    then show "list_all (keeps m [row]) x'" using inv x' by simp
  qed
  then show ?thesis using row by blast
qed

lemma fixed_in_sample_batch2_tokens:
  assumes "sample_batch2_tokens env coords n (Some ps) T conf dev r = (Inr toks', st)"
    and "p < length ps" and "get_idx env (ps ! p) = Some k"
    and "get_idx env ''<mask>'' \<noteq> Some k"
  shows "\<exists>m row R. keeps m (replicate R row) toks' \<and> length row = length coords + 1
           \<and> row ! (p + 1) = k \<and> p < length coords \<and> k \<noteq> m"
proof -
  let ?L = "length coords" and ?R = "if truthy dev then nat n else 1"
  from assms(1) obtain batch m toks all_eo toks2 eo where
    it: "init_tokens env ?L (Some ps) = Inr (m, toks)" and
    rr: "repeat_rows dev n toks = Inr toks2" and
    l: "for_loop [1..<?L + 1] (batch2_step env eo T m) toks2
          (snd (call_encoder env batch (init_state r))) = (Inr toks', st)"
    by (rule sample_batch2_tokens_InrE)
  from it assms(2,3,4) obtain row where row: "toks = [row]" "length row = ?L + 1"
    "row ! (p + 1) = k" "p < ?L" "k \<noteq> m"
    by (rule init_fixed)
  have t2: "toks2 = replicate ?R row"
    using repeat_rows_lengths [of dev n row toks2] rr row by simp
  have "keeps m toks2 toks'"
    by (rule for_loop_success [OF l, where P = "\<lambda>x s. keeps m toks2 x"])
       (auto intro: keeps_refl keeps_trans dest: batch2_step_keeps)
  then show ?thesis using t2 row by blast
qed

lemma kept_rows:
  assumes "keeps m (replicate R row) toks'" and "length row = L + 1" and "row ! (p + 1) = k"
    and "p < L" and "k \<noteq> m"
  shows "length toks' = R \<and> list_all (\<lambda>row'. length row' = L + 1 \<and> row' ! (p + 1) = k) toks'"
proof -
  have len: "length toks' = R" using keeps_length [OF assms(1)] by simp
  have "length (toks' ! j) = L + 1 \<and> toks' ! j ! (p + 1) = k" if "j < R" for j
    using keeps_nth [OF assms(1), of j] that assms(2-5) by auto
  then show ?thesis using len by (auto simp: list_all_length)
qed

lemmas token_defs = sample_tokens_def decode_tokens_def sample_batch_tokens_def
  batch_sample_tokens_def sample_batch2_tokens_def

lemma run_sample_tokens_partial:
  "sample_tokens test_env (test_coords 2) (Some [''A'', ''<mask>'']) 1 None None [2]
     = (Inr [[0, 1, 2]],
        \<lparr>incremental_state = [(''calls'', 2)], rng = [],
         calls = [EncoderCall,
           DecoderCall [[0]] [(''encoder_out'', 1), (''encoder_padding_mask'', 1)]
             [] [(''calls'', 1)],
           DecoderCall [[0, 1]] [(''encoder_out'', 1), (''encoder_padding_mask'', 1)]
             [(''calls'', 1)] [(''calls'', 2)]]\<rparr>)"
  by (simp add: token_defs eval_defs)

lemma run_sample_batch_partial:
  "sample_batch test_env (test_coords 2) 2 (Some [''A'', ''<mask>'']) 1 None (Some ''cpu'') [2, 1]
     = (Inr [''AC'', ''AA''],
        \<lparr>incremental_state = [(''calls'', 4)], rng = [],
         calls = [EncoderCall,
           DecoderCall [[0]] [(''encoder_out'', 2), (''encoder_padding_mask'', 2)]
             [] [(''calls'', 1)],
           DecoderCall [[0, 1]] [(''encoder_out'', 2), (''encoder_padding_mask'', 2)]
             [(''calls'', 1)] [(''calls'', 2)],
           DecoderCall [[0]] [(''encoder_out'', 2), (''encoder_padding_mask'', 2)]
             [(''calls'', 2)] [(''calls'', 3)],
           DecoderCall [[0, 1]] [(''encoder_out'', 2), (''encoder_padding_mask'', 2)]
             [(''calls'', 3)] [(''calls'', 4)]]\<rparr>)"
  by (simp add: eval_defs)

lemma run_sample_batch_tokens_partial:
  "fst (sample_batch_tokens test_env (test_coords 2) 2 (Some [''A'', ''<mask>'']) 1 None
          (Some ''cpu'') [2, 1])
     = Inr [[[0, 1, 2]], [[0, 1, 1]]]"
  by (simp add: token_defs eval_defs)

lemma run_sample_batch2_tokens_fixed:
  "fst (sample_batch2_tokens test_env (test_coords 2) 2 (Some [''C'', ''A'']) 1 None
          (Some ''cpu'') [])
     = Inr [[0, 2, 1], [0, 2, 1]]"
  by (simp add: token_defs eval_defs)

lemma run_sample_step_masked:
  "sample_step test_env [(''encoder_out'', 1), (''encoder_padding_mask'', 1)] 1 3 1 [[0, 3]]
       (init_state [2])
     = (Inr [[0, 2]],
        \<lparr>incremental_state = [(''calls'', 1)], rng = [],
         calls = [DecoderCall [[0]] [(''encoder_out'', 1), (''encoder_padding_mask'', 1)]
             [] [(''calls'', 1)]]\<rparr>)"
  by (simp add: eval_defs)

lemma run_sample_tokens_mask:
  "fst (sample_tokens test_env (test_coords 1) (Some [''<mask>'']) 1 None None [1]) = Inr [[0, 1]]"
  by (simp add: token_defs eval_defs)

lemma run_batch2_step_fixed:
  "batch2_step test_env [(''encoder_out'', 2), (''encoder_padding_mask'', 2)] 1 3 1
       [[0, 2, 1], [0, 2, 1]] (init_state [])
     = (Inr [[0, 2, 1], [0, 2, 1]],
        \<lparr>incremental_state = [(''calls'', 1)], rng = [],
         calls = [DecoderCall [[0], [0]] [(''encoder_out'', 2), (''encoder_padding_mask'', 2)]
             [] [(''calls'', 1)]]\<rparr>)"
  by (simp add: eval_defs)

text \<open>
  Claim C1, as amended. A position of the partial sequence whose symbol has an index
  other than the mask index keeps that index through the decoding loop of each of the
  three methods. No step of a loop changes an entry of the buffer that holds anything
  but the mask index. The buffer at the end of the loop holds the index at column
  \<open>p + 1\<close> (every buffer of \<^verbatim>\<open>sample_batch\<close>, every row of \<^verbatim>\<open>sample_batch2\<close>). Every
  string returned is made from such a buffer of \<open>1 + L\<close> columns: it is the concatenation
  of the symbols of the columns \<open>1, 2, ..\<close>, and the symbol of column \<open>p + 1\<close>, which
  stands in the string right after the symbols of the columns \<open>1 .. p\<close>, is the supplied
  one when the vocabulary maps the index back to it. (A position supplied as \<^verbatim>\<open><mask>\<close>
  is written into the buffer too, and is resampled.)
\<close>

theorem fixed_positions_kept:
  assumes "p < length ps" and "get_idx env (ps ! p) = Some k"
    and "get_idx env ''<mask>'' \<noteq> Some k" and "get_tok env k = Some (ps ! p)"
  shows "(\<forall>toks'. fst (sample_tokens env coords (Some ps) T conf dev r) = Inr toks' \<longrightarrow>
            get_item toks' 0 (p + 1) = Inr k)
       \<and> (\<forall>s. fst (sample env coords (Some ps) T conf dev r) = Inr s \<longrightarrow>
            (\<exists>toks'. fst (sample_tokens env coords (Some ps) T conf dev r) = Inr toks'
               \<and> length (toks' ! 0) = length coords + 1
               \<and> symbol_at env (toks' ! 0) p (ps ! p) s))
       \<and> (\<forall>bufs. fst (sample_batch_tokens env coords n (Some ps) T conf dev r) = Inr bufs \<longrightarrow>
            list_all (\<lambda>t. get_item t 0 (p + 1) = Inr k) bufs)
       \<and> (\<forall>ss. fst (sample_batch env coords n (Some ps) T conf dev r) = Inr ss \<longrightarrow>
            (\<exists>bufs. fst (sample_batch_tokens env coords n (Some ps) T conf dev r) = Inr bufs
               \<and> list_all2 (\<lambda>t s. length (t ! 0) = length coords + 1
                                \<and> symbol_at env (t ! 0) p (ps ! p) s) bufs ss))
       \<and> (\<forall>toks'. fst (sample_batch2_tokens env coords n (Some ps) T conf dev r) = Inr toks' \<longrightarrow>
            list_all (\<lambda>row. length row = length coords + 1 \<and> row ! (p + 1) = k) toks')
       \<and> (\<forall>ss. fst (sample_batch2 env coords n (Some ps) T conf dev r) = Inr ss \<longrightarrow>
            (\<exists>toks'. fst (sample_batch2_tokens env coords n (Some ps) T conf dev r) = Inr toks'
               \<and> list_all2 (\<lambda>row s. symbol_at env row p (ps ! p) s) (take (nat n) toks') ss))
       \<and> (\<forall>eo m i row st toks' st'.
            sample_step env eo T m i [row] st = (Inr toks', st') \<longrightarrow> keeps m [row] toks')
       \<and> (\<forall>eo m i toks st toks' st'.
            batch2_step env eo T m i toks st = (Inr toks', st') \<longrightarrow> keeps m toks toks')"
proof (intro conjI allI impI)
  fix toks'
  assume "fst (sample_tokens env coords (Some ps) T conf dev r) = Inr toks'"
  then have e: "sample_tokens env coords (Some ps) T conf dev r
               = (Inr toks', snd (sample_tokens env coords (Some ps) T conf dev r))"
    by (metis prod.collapse)
  from fixed_in_sample_tokens [OF e assms(1,2,3)] obtain m row where
    k: "keeps m [row] toks'" and row: "length row = length coords + 1" "row ! (p + 1) = k"
      "p < length coords" "k \<noteq> m" by blast
  from kept_rows [of m 1 row toks', OF _ row] k
  show "get_item toks' 0 (p + 1) = Inr k"
    using row by (auto simp: get_item_def list_all_length)
next
  fix s
  assume a: "fst (sample env coords (Some ps) T conf dev r) = Inr s"
  obtain res st where e: "sample_tokens env coords (Some ps) T conf dev r = (res, st)"
    by (cases "sample_tokens env coords (Some ps) T conf dev r")
  from a e obtain toks' where res: "res = Inr toks'" and s: "row_to_string env toks' 0 = Inr s"
    by (cases res) (auto simp: sample_eq)
  from fixed_in_sample_tokens [OF e [unfolded res] assms(1,2,3)] obtain m row where
    k: "keeps m [row] toks'" and row: "length row = length coords + 1" "row ! (p + 1) = k"
      "p < length coords" "k \<noteq> m" by blast
  from kept_row_symbol [OF k _ _ row(3) _ row(4) assms(4) s] row
  have "length (toks' ! 0) = length coords + 1 \<and> symbol_at env (toks' ! 0) p (ps ! p) s"
    by simp
  then show "\<exists>toks'. fst (sample_tokens env coords (Some ps) T conf dev r) = Inr toks'
               \<and> length (toks' ! 0) = length coords + 1
               \<and> symbol_at env (toks' ! 0) p (ps ! p) s"
    using e res by auto
next
  fix bufs
  assume "fst (sample_batch_tokens env coords n (Some ps) T conf dev r) = Inr bufs"
  then have e: "sample_batch_tokens env coords n (Some ps) T conf dev r
               = (Inr bufs, snd (sample_batch_tokens env coords n (Some ps) T conf dev r))"
    by (metis prod.collapse)
  from fixed_in_sample_batch_tokens [OF e assms(1,2,3)] obtain m row where
    k: "list_all (keeps m [row]) bufs" and row: "length row = length coords + 1"
      "row ! (p + 1) = k" "p < length coords" "k \<noteq> m" by blast
  have "get_item t 0 (p + 1) = Inr k" if "keeps m [row] t" for t
    using kept_rows [of m 1 row t, OF _ row] that row
    by (auto simp: get_item_def list_all_length)
  then show "list_all (\<lambda>t. get_item t 0 (p + 1) = Inr k) bufs"
    using k by (auto simp: list_all_iff)
next
  fix ss
  assume a: "fst (sample_batch env coords n (Some ps) T conf dev r) = Inr ss"
  from sample_batch_buffers [OF a] obtain bufs where
    b: "fst (sample_batch_tokens env coords n (Some ps) T conf dev r) = Inr bufs"
    and l: "list_all2 (\<lambda>t s. row_to_string env t 0 = Inr s) bufs ss" by blast
  from b have e: "sample_batch_tokens env coords n (Some ps) T conf dev r
               = (Inr bufs, snd (sample_batch_tokens env coords n (Some ps) T conf dev r))"
    by (metis prod.collapse)
  from fixed_in_sample_batch_tokens [OF e assms(1,2,3)] obtain m row where
    k: "list_all (keeps m [row]) bufs" and row: "length row = length coords + 1"
      "row ! (p + 1) = k" "p < length coords" "k \<noteq> m" by blast
  have "length (t ! 0) = length coords + 1 \<and> symbol_at env (t ! 0) p (ps ! p) s"
    if "keeps m [row] t" "row_to_string env t 0 = Inr s" for t s
    using kept_row_symbol [OF that(1) _ _ row(3) _ row(4) assms(4) that(2)] row by simp
  then have "list_all2 (\<lambda>t s. length (t ! 0) = length coords + 1
                \<and> symbol_at env (t ! 0) p (ps ! p) s) bufs ss"
    using l k by (auto simp: list_all2_conv_all_nth list_all_length)
  then show "\<exists>bufs. fst (sample_batch_tokens env coords n (Some ps) T conf dev r) = Inr bufs
               \<and> list_all2 (\<lambda>t s. length (t ! 0) = length coords + 1
                                \<and> symbol_at env (t ! 0) p (ps ! p) s) bufs ss"
    using b by blast
next
  fix toks'
  assume "fst (sample_batch2_tokens env coords n (Some ps) T conf dev r) = Inr toks'"
  then have e: "sample_batch2_tokens env coords n (Some ps) T conf dev r
               = (Inr toks', snd (sample_batch2_tokens env coords n (Some ps) T conf dev r))"
    by (metis prod.collapse)
  from fixed_in_sample_batch2_tokens [OF e assms(1,2,3)] obtain m row R where
    k: "keeps m (replicate R row) toks'" and row: "length row = length coords + 1"
      "row ! (p + 1) = k" "p < length coords" "k \<noteq> m" by blast
  from kept_rows [OF k row]
  show "list_all (\<lambda>row. length row = length coords + 1 \<and> row ! (p + 1) = k) toks'" by simp
next
  fix ss
  assume a: "fst (sample_batch2 env coords n (Some ps) T conf dev r) = Inr ss"
  obtain res st where e: "sample_batch2_tokens env coords n (Some ps) T conf dev r = (res, st)"
    by (cases "sample_batch2_tokens env coords n (Some ps) T conf dev r")
  from a e obtain toks' where res: "res = Inr toks'"
    and cs: "collect_strings env toks' [0..<nat n] [] = Inr ss"
    by (cases res) (auto simp: sample_batch2_eq simp del: upt_Suc)
  from fixed_in_sample_batch2_tokens [OF e [unfolded res] assms(1,2,3)] obtain m row R where
    k: "keeps m (replicate R row) toks'" and row: "length row = length coords + 1"
      "row ! (p + 1) = k" "p < length coords" "k \<noteq> m" by blast
  from collect_strings_rows [OF cs] have len: "length ss = nat n" "nat n \<le> length toks'"
    and nth: "\<forall>j<nat n. row_to_string env toks' j = Inr (ss ! j)" by auto
  have R: "length toks' = R" using keeps_length [OF k] by simp
  have "symbol_at env (toks' ! j) p (ps ! p) (ss ! j)" if "j < nat n" for j
  proof -
    have j: "j < length (replicate R row)" using that len R by simp
    have s: "row_to_string env toks' j = Inr (ss ! j)" using nth that by simp
    from kept_row_symbol [OF k j _ row(3) _ row(4) assms(4) s] row j
    show ?thesis by simp
  qed
  then have "list_all2 (\<lambda>row s. symbol_at env row p (ps ! p) s) (take (nat n) toks') ss"
    using len by (auto simp: list_all2_conv_all_nth)
  then show "\<exists>toks'. fst (sample_batch2_tokens env coords n (Some ps) T conf dev r) = Inr toks'
               \<and> list_all2 (\<lambda>row s. symbol_at env row p (ps ! p) s) (take (nat n) toks') ss"
    using e res by auto
next
  fix eo m i row st toks' st'
  assume "sample_step env eo T m i [row] st = (Inr toks', st')"
  then show "keeps m [row] toks'" by (rule sample_step_keeps)
next
  fix eo m i toks st toks' st'
  assume "batch2_step env eo T m i toks st = (Inr toks', st')"
  then show "keeps m toks toks'" by (rule batch2_step_keeps)
qed

theorem fixed_positions_kept_witness:
  "(0::nat) < length [''A'', ''<mask>'']
   \<and> get_idx test_env ([''A'', ''<mask>''] ! 0) = Some 1
   \<and> get_idx test_env ''<mask>'' \<noteq> Some 1
   \<and> get_tok test_env 1 = Some ([''A'', ''<mask>''] ! 0)
   \<and> fst (sample_tokens test_env (test_coords 2) (Some [''A'', ''<mask>'']) 1 None None [2])
       = Inr [[0, 1, 2]]
   \<and> get_item [[0, 1, 2]] 0 (0 + 1) = Inr 1
   \<and> fst (sample test_env (test_coords 2) (Some [''A'', ''<mask>'']) 1 None None [2]) = Inr ''AC''
   \<and> symbol_at test_env [0, 1, 2] 0 ''A'' ''AC''
   \<and> fst (sample_batch_tokens test_env (test_coords 2) 2 (Some [''A'', ''<mask>'']) 1 None
            (Some ''cpu'') [2, 1]) = Inr [[[0, 1, 2]], [[0, 1, 1]]]
   \<and> fst (sample_batch test_env (test_coords 2) 2 (Some [''A'', ''<mask>'']) 1 None
            (Some ''cpu'') [2, 1]) = Inr [''AC'', ''AA'']
   \<and> symbol_at test_env [0, 1, 1] 0 ''A'' ''AA''
   \<and> get_idx test_env ([''C'', ''A''] ! 0) = Some 2
   \<and> fst (sample_batch2_tokens test_env (test_coords 2) 2 (Some [''C'', ''A'']) 1 None
            (Some ''cpu'') []) = Inr [[0, 2, 1], [0, 2, 1]]
   \<and> fst (sample_batch2 test_env (test_coords 2) 2 (Some [''C'', ''A'']) 1 None
            (Some ''cpu'') []) = Inr [''CA'', ''CA'']
   \<and> symbol_at test_env [0, 2, 1] 0 ''C'' ''CA''
   \<and> sample_step test_env [(''encoder_out'', 1), (''encoder_padding_mask'', 1)] 1 3 1 [[0, 3]]
         (init_state [2])
       = (Inr [[0, 2]],
          \<lparr>incremental_state = [(''calls'', 1)], rng = [],
           calls = [DecoderCall [[0]] [(''encoder_out'', 1), (''encoder_padding_mask'', 1)]
               [] [(''calls'', 1)]]\<rparr>)
   \<and> keeps 3 [[0, 3]] [[0, 2]]
   \<and> list_all (\<lambda>t. get_item t 0 (0 + 1) = Inr 1) [[[0, 1, 2]], [[0, 1, 1]]]
   \<and> list_all (\<lambda>row. length row = length (test_coords 2) + 1 \<and> row ! (0 + 1) = 2)
         [[0, 2, 1], [0, 2, 1 :: int]]
   \<and> batch2_step test_env [(''encoder_out'', 2), (''encoder_padding_mask'', 2)] 1 3 1
         [[0, 2, 1], [0, 2, 1]] (init_state [])
       = (Inr [[0, 2, 1], [0, 2, 1]],
          \<lparr>incremental_state = [(''calls'', 1)], rng = [],
           calls = [DecoderCall [[0], [0]] [(''encoder_out'', 2), (''encoder_padding_mask'', 2)]
               [] [(''calls'', 1)]]\<rparr>)
   \<and> keeps 3 [[0, 2, 1], [0, 2, 1]] [[0, 2, 1], [0, 2, 1]]"
proof -
  have h: "(0::nat) < length [''A'', ''<mask>'']"
    "get_idx test_env ([''A'', ''<mask>''] ! 0) = Some 1"
    "get_idx test_env ''<mask>'' \<noteq> Some 1"
    "get_tok test_env 1 = Some ([''A'', ''<mask>''] ! 0)"
    by (simp_all add: test_defs)
  have h2: "(0::nat) < length [''C'', ''A'']"
    "get_idx test_env ([''C'', ''A''] ! 0) = Some 2"
    "get_idx test_env ''<mask>'' \<noteq> Some 2"
    "get_tok test_env 2 = Some ([''C'', ''A''] ! 0)"
    by (simp_all add: test_defs)
  note a = fixed_positions_kept [where env = test_env and coords = "test_coords 2" and T = 1
      and conf = None and dev = None and r = "[2]" and n = 2, OF h]
  note b = fixed_positions_kept [where env = test_env and coords = "test_coords 2" and T = 1
      and conf = None and dev = "Some ''cpu''" and r = "[2, 1]" and n = 2, OF h]
  note c = fixed_positions_kept [where env = test_env and coords = "test_coords 2" and T = 1
      and conf = None and dev = "Some ''cpu''" and r = "[]" and n = 2, OF h2]
  have s1: "fst (sample test_env (test_coords 2) (Some [''A'', ''<mask>'']) 1 None None [2])
      = Inr ''AC''" unfolding run_sample_partial by simp
  have s2: "fst (sample_batch test_env (test_coords 2) 2 (Some [''A'', ''<mask>'']) 1 None
            (Some ''cpu'') [2, 1]) = Inr [''AC'', ''AA'']"
    unfolding run_sample_batch_partial by simp
  have s3: "fst (sample_batch2 test_env (test_coords 2) 2 (Some [''C'', ''A'']) 1 None
            (Some ''cpu'') []) = Inr [''CA'', ''CA'']"
    unfolding run_sample_batch2_fixed by simp
  have t1: "fst (sample_tokens test_env (test_coords 2) (Some [''A'', ''<mask>'']) 1 None None [2])
       = Inr [[0, 1, 2]]" unfolding run_sample_tokens_partial by simp
  have g: "get_item [[0, 1, 2]] 0 (0 + 1) = Inr 1" using a t1 by auto
  have y1: "symbol_at test_env [0, 1, 2] 0 ''A'' ''AC''" using a s1 t1 by auto
  have y2: "symbol_at test_env [0, 1, 1] 0 ''A'' ''AA''"
    using b s2 run_sample_batch_tokens_partial by auto
  have y3: "symbol_at test_env [0, 2, 1] 0 ''C'' ''CA''"
    using c s3 run_sample_batch2_tokens_fixed by (auto simp: eval_nat_numeral)
  have k: "keeps 3 [[0, 3]] [[0, 2]]"
    using a run_sample_step_masked by blast
  have g2: "list_all (\<lambda>t. get_item t 0 (0 + 1) = Inr 1) [[[0, 1, 2]], [[0, 1, 1]]]"
    by (rule b [THEN conjunct2, THEN conjunct2, THEN conjunct1, rule_format,
          OF run_sample_batch_tokens_partial])
  have g3: "list_all (\<lambda>row. length row = length (test_coords 2) + 1 \<and> row ! (0 + 1) = 2)
         [[0, 2, 1], [0, 2, 1 :: int]]"
    by (rule c [THEN conjunct2, THEN conjunct2, THEN conjunct2, THEN conjunct2, THEN conjunct1,
          rule_format, OF run_sample_batch2_tokens_fixed])
  have k2: "keeps 3 [[0, 2, 1], [0, 2, 1]] [[0, 2, 1], [0, 2, 1]]"
    by (rule c [THEN conjunct2, THEN conjunct2, THEN conjunct2, THEN conjunct2, THEN conjunct2,
          THEN conjunct2, THEN conjunct2, rule_format, OF run_batch2_step_fixed])
  show ?thesis
    using h h2(2) s1 s2 s3 t1 g y1 y2 y3 run_sample_batch_tokens_partial
      run_sample_batch2_tokens_fixed run_sample_step_masked k g2 g3 run_batch2_step_fixed k2
    by (intro conjI)
qed

text \<open>
  The claim as stated fails for the mask symbol: it is written into the buffer at
  initialisation, and the decoding loop overwrites it with a draw.
\<close>

theorem mask_position_resampled:
  "init_tokens test_env (length (test_coords 1)) (Some [''<mask>'']) = Inr (3, [[0, 3]])
   \<and> fst (sample_tokens test_env (test_coords 1) (Some [''<mask>'']) 1 None None [1])
       = Inr [[0, 1]]
   \<and> fst (sample test_env (test_coords 1) (Some [''<mask>'']) 1 None None [1]) = Inr ''A''
   \<and> \<not> symbol_at test_env [0, 1] 0 ''<mask>'' ''A''
   \<and> \<not> (\<exists>syms. ''A'' = concat syms \<and> length syms = length (test_coords 1)
            \<and> syms ! 0 = [''<mask>''] ! 0)"
proof -
  have i: "init_tokens test_env (length (test_coords 1)) (Some [''<mask>'']) = Inr (3, [[0, 3]])"
    by (simp add: eval_defs)
  have s: "fst (sample test_env (test_coords 1) (Some [''<mask>'']) 1 None None [1]) = Inr ''A''"
    unfolding run_sample_mask by simp
  have y: "\<not> symbol_at test_env [0, 1] 0 ''<mask>'' ''A''"
    by (simp add: symbol_at_def symbols_of_def test_defs)
  have n: "\<not> (\<exists>syms. ''A'' = concat syms \<and> length syms = length (test_coords 1)
            \<and> syms ! 0 = [''<mask>''] ! 0)"
    by (auto simp: test_coords_def length_Suc_conv)
  show ?thesis using i run_sample_tokens_mask s y n by (intro conjI)
qed

subsection \<open>The length of the sequence returned by sample\<close>

lemma write_partial_total:
  "\<forall>c\<in>set ps. get_idx env c \<noteq> None \<Longrightarrow> i + length ps < length row \<Longrightarrow>
   \<exists>t'. write_partial env i ps [row] = Inr t'"
proof (induction ps arbitrary: i row)
  case Nil
  then show ?case by simp
next
  case (Cons c cs)
  from Cons.prems(1) obtain k where k: "get_idx env c = Some k" by auto
  have "\<exists>t'. write_partial env (i + 1) cs [row[i + 1 := k]] = Inr t'"
    using Cons.prems by (intro Cons.IH) auto
  then show ?case using k Cons.prems(2) by (simp add: set_item_def)
qed

lemma init_tokens_total:
  assumes "get_idx env ''<mask>'' \<noteq> None" and "get_idx env ''<cath>'' \<noteq> None"
    and "case ps of None \<Rightarrow> True
         | Some qs \<Rightarrow> length qs \<le> L \<and> (\<forall>c\<in>set qs. get_idx env c \<noteq> None)"
  shows "\<exists>m toks. init_tokens env L ps = Inr (m, toks)"
proof -
  from assms(1,2) obtain m cath where
    m: "get_idx env ''<mask>'' = Some m" and c: "get_idx env ''<cath>'' = Some cath" by auto
  show ?thesis
  proof (cases ps)
    case None
    then show ?thesis using m c by (simp add: init_tokens_def set_item_def)
  next
    case (Some qs)
    have "\<exists>t'. write_partial env 0 qs [(replicate (1 + L) m)[0 := cath]] = Inr t'"
      using assms(3) Some by (intro write_partial_total) auto
    then show ?thesis using m c Some by (auto simp: init_tokens_def set_item_def)
  qed
qed

lemma index_of_Some: "index_of ts c = Some i \<Longrightarrow> i < length ts \<and> ts ! i = c"
  by (induction ts arbitrary: i) (auto split: if_splits)

lemma vocab_round_trip: "vocab_get_idx ts c = Some k \<Longrightarrow> vocab_get_tok ts k = Some c"
  by (auto simp: vocab_get_idx_def vocab_get_tok_def dest: index_of_Some)

lemma init_tokens_known:
  assumes it: "init_tokens env L ps = Inr (m, toks)"
    and voc: "\<forall>c k. get_idx env c = Some k \<longrightarrow> get_tok env k \<noteq> None"
  shows "\<exists>row. toks = [row] \<and> length row = L + 1
           \<and> (\<forall>c. 0 < c \<and> c \<le> L \<longrightarrow> get_tok env (row ! c) \<noteq> None)"
proof -
  have gen: "\<exists>row. toks = [row] \<and> length row = L + 1
           \<and> (\<forall>c. 0 < c \<and> c \<le> L \<longrightarrow> get_tok env (row ! c) \<noteq> None)"
    if q: "init_tokens env L (Some qs) = Inr (m, toks)" for qs
  proof -
    from init_tokens_row [OF q] obtain row where m: "get_idx env ''<mask>'' = Some m"
      and row: "toks = [row]" "length row = 1 + L"
      and w: "\<forall>p<length qs. get_idx env (qs ! p) = Some (row ! (p + 1)) \<and> p < L"
      and u: "\<forall>c. length qs < c \<and> c \<le> L \<longrightarrow> row ! c = m"
      by blast
    have "get_tok env (row ! c) \<noteq> None" if c: "0 < c" "c \<le> L" for c
    proof (cases "c \<le> length qs")
      case True
      then have "get_idx env (qs ! (c - 1)) = Some (row ! c)" using w c by auto
      then show ?thesis using voc by blast
    next
      case False
      then have "row ! c = m" using u c by simp
      then show ?thesis using voc m by blast
    qed
    then show ?thesis using row by simp
  qed
  show ?thesis
  proof (cases ps)
    case None
    then show ?thesis using gen [of "[]"] it by (simp add: init_tokens_Some_Nil)
  next
    case (Some qs)
    then show ?thesis using gen [of qs] it by simp
  qed
qed

lemma for_loop_upt_total:
  assumes "Inv a x s"
    and "\<And>i x s. a \<le> i \<Longrightarrow> i < b \<Longrightarrow> Inv i x s
           \<Longrightarrow> \<exists>x' s'. body i x s = (Inr x', s') \<and> Inv (Suc i) x' s'"
    and "a \<le> b"
  shows "\<exists>y t. for_loop [a..<b] body x s = (Inr y, t) \<and> Inv b y t"
  using assms
proof (induction "b - a" arbitrary: a x s)
  case 0
  then show ?case by simp
next
  case (Suc d)
  then have ab: "a < b" by simp
  from Suc.prems(2) [of a x s] Suc.prems(1) ab obtain x' s' where
    b: "body a x s = (Inr x', s')" and i: "Inv (Suc a) x' s'" by auto
  have d: "d = b - Suc a" using Suc.hyps(2) by simp
  have step: "\<And>i x s. Suc a \<le> i \<Longrightarrow> i < b \<Longrightarrow> Inv i x s
           \<Longrightarrow> \<exists>x' s'. body i x s = (Inr x', s') \<and> Inv (Suc i) x' s'"
    using Suc.prems(2) by (meson Suc_leD)
  from Suc.hyps(1) [OF d i step] ab obtain y t where
    "for_loop [Suc a..<b] body x' s' = (Inr y, t)" "Inv b y t" by auto
  then show ?case using b ab by (simp add: upt_conv_Cons)
qed

lemma single_columns_max:
  "list_all (\<lambda>x. length x = 1) l0 \<Longrightarrow>
   foldr (\<lambda>xs. max (length xs)) l0 0 = (if l0 = [] then 0 else 1)"
  by (induction l0) (auto simp: max_def)

lemma transpose_single_columns:
  assumes "l0 \<noteq> []" and "list_all (\<lambda>x. length x = 1) l0"
  shows "\<exists>row. transpose l0 = [row] \<and> length row = length l0"
proof -
  have len: "length (transpose l0) = 1"
    using single_columns_max [OF assms(2)] assms(1) by (simp add: length_transpose)
  then obtain row where t: "transpose l0 = [row]"
    by (cases "transpose l0") auto
  have "filter (\<lambda>ys. 0 < length ys) l0 = l0"
    using assms(2) by (auto simp: list_all_iff filter_id_conv)
  then have "transpose l0 ! 0 = map (\<lambda>xs. xs ! 0) l0"
    using nth_transpose [of 0 l0] len by simp
  then show ?thesis using t by auto
qed

lemma multinomial_single:
  "multinomial env [p] st =
     (case multinomial_row env p (rng st) of
        (Inl e, r') \<Rightarrow> (Inl e, st\<lparr>rng := r'\<rparr>)
      | (Inr k, r') \<Rightarrow> (Inr [k], st\<lparr>rng := r'\<rparr>))"
  by (simp split: prod.splits sum.splits)

lemma sample_step_returns:
  assumes V: "0 < V"
    and dec: "\<forall>toks eo c. length toks = 1 \<longrightarrow>
            (\<exists>l0 ls c'. decoder env toks eo c = (Inr (l0 # ls), c') \<and> length l0 = V
               \<and> list_all (\<lambda>x. length x = 1) l0)"
    and mul: "\<forall>n ys rr. length ys = V \<and> I (Suc n) rr \<longrightarrow>
            (\<exists>k rr'. multinomial_row env (softmax_row env ys) rr = (Inr k, rr') \<and> I n rr'
               \<and> get_tok env (int k) \<noteq> None)"
    and len: "length row = L + 1" and i: "0 < i" "i \<le> L"
    and ok: "\<forall>c. 0 < c \<and> c \<le> L \<longrightarrow> get_tok env (row ! c) \<noteq> None"
    and bud: "L + 1 - i \<le> n" "I n (rng st)"
  shows "\<exists>row' st' n'. sample_step env eo T m i [row] st = (Inr [row'], st')
           \<and> length row' = L + 1
           \<and> (\<forall>c. 0 < c \<and> c \<le> L \<longrightarrow> get_tok env (row' ! c) \<noteq> None)
           \<and> L + 1 - Suc i \<le> n' \<and> I n' (rng st')"
proof -
  from dec [rule_format, of "map (take i) [row]" eo "incremental_state st"]
  obtain l0 ls c' where
    d: "decoder env (map (take i) [row]) eo (incremental_state st) = (Inr (l0 # ls), c')"
    and sh: "length l0 = V" "list_all (\<lambda>x. length x = 1) l0"
    by auto
  from transpose_single_columns [of l0] sh V obtain col where
    t: "transpose l0 = [col]" and cl: "length col = V" by auto
  define st1 where "st1 = st\<lparr>incremental_state := c',
      calls := calls st @ [DecoderCall (map (take i) [row]) eo (incremental_state st) c']\<rparr>"
  define ys where "ys = map (\<lambda>x. true_divide env x T) col"
  have cd: "call_decoder env (map (take i) [row]) eo st = (Inr (l0 # ls), st1)"
    using d by (simp add: call_decoder_def st1_def)
  have sp: "sample_probs env (l0 # ls) T = Inr [softmax_row env ys]"
    by (simp add: sample_probs_def t ys_def)
  have r1: "rng st1 = rng st" by (simp add: st1_def)
  have gi: "get_item [row] 0 i = Inr (row ! i)" using len i by (simp add: get_item_def)
  show ?thesis
  proof (cases "row ! i = m")
    case False
    then have "sample_step env eo T m i [row] st = (Inr [row], st1)"
      using cd sp gi by (simp add: sample_step_def)
    moreover have "L + 1 - Suc i \<le> n" using bud(1) by simp
    moreover have "I n (rng st1)" using bud(2) r1 by simp
    ultimately show ?thesis using len ok by blast
  next
    case True
    from bud(1) i obtain n' where n: "n = Suc n'" by (cases n) auto
    have "length ys = V" by (simp add: ys_def cl)
    with mul bud(2) n r1 obtain k rr' where
      mr: "multinomial_row env (softmax_row env ys) (rng st1) = (Inr k, rr')"
      and b': "I n' rr'" and kt: "get_tok env (int k) \<noteq> None"
      by metis
    have mm: "multinomial env [softmax_row env ys] st1 = (Inr [k], st1\<lparr>rng := rr'\<rparr>)"
      using mr by (simp add: multinomial_single)
    have sc: "set_column [row] i (map int [k]) = Inr [row[i := int k]]"
      using len i by (simp add: set_column_def)
    have "sample_step env eo T m i [row] st = (Inr [row[i := int k]], st1\<lparr>rng := rr'\<rparr>)"
      using cd sp gi True mm sc by (simp add: sample_step_def)
    moreover have "get_tok env (row[i := int k] ! c) \<noteq> None" if "0 < c" "c \<le> L" for c
      using that ok kt len by (cases "c = i") auto
    moreover have "L + 1 - Suc i \<le> n'" using bud(1) n by simp
    moreover have "length (row[i := int k]) = L + 1" using len by simp
    moreover have "I n' (rng (st1\<lparr>rng := rr'\<rparr>))" using b' by simp
    ultimately show ?thesis by blast
  qed
qed

lemma for_loop_upt_success:
  assumes "for_loop [a..<b] body x s = (Inr y, t)" and "Inv a x s"
    and "\<And>i x s x' s'. a \<le> i \<Longrightarrow> i < b \<Longrightarrow> Inv i x s \<Longrightarrow> body i x s = (Inr x', s')
           \<Longrightarrow> Inv (Suc i) x' s'"
    and "a \<le> b"
  shows "Inv b y t"
  using assms
proof (induction "b - a" arbitrary: a x s)
  case 0
  then show ?case by simp
next
  case (Suc d)
  then have ab: "a < b" by simp
  from Suc.prems(1) ab obtain x' s' where
    b: "body a x s = (Inr x', s')" and l: "for_loop [Suc a..<b] body x' s' = (Inr y, t)"
    by (auto simp: upt_conv_Cons split: prod.splits sum.splits)
  have i: "Inv (Suc a) x' s'" using Suc.prems(3) [OF _ ab Suc.prems(2) b] by simp
  have d: "d = b - Suc a" using Suc.hyps(2) by simp
  have step: "\<And>i x s x' s'. Suc a \<le> i \<Longrightarrow> i < b \<Longrightarrow> Inv i x s \<Longrightarrow> body i x s = (Inr x', s')
           \<Longrightarrow> Inv (Suc i) x' s'"
    using Suc.prems(3) by (meson Suc_leD)
  from Suc.hyps(1) [OF d l i step] ab show ?case by simp
qed

lemma multinomial_length:
  "multinomial env ps st = (Inr ks, st') \<Longrightarrow> length ks = length ps"
  by (induction ps arbitrary: st ks) (auto split: prod.splits sum.splits)

lemma sample_step_masked:
  assumes s: "sample_step env eo T m i [row] st = (Inr toks', st')"
    and g: "get_item [row] 0 i = Inr m"
  shows "\<exists>logits st1 p k. call_decoder env [take i row] eo st = (Inr logits, st1)
           \<and> sample_probs env logits T = Inr [p]
           \<and> multinomial_row env p (rng st) = (Inr k, rng st')
           \<and> toks' = [row[i := int k]]"
proof -
  from s obtain logits st1 where cd: "call_decoder env [take i row] eo st = (Inr logits, st1)"
    by (auto simp: sample_step_def split: prod.splits sum.splits)
  from s cd obtain probs where sp: "sample_probs env logits T = Inr probs"
    by (auto simp: sample_step_def split: prod.splits sum.splits)
  from s cd sp g obtain draws where mu: "multinomial env probs st1 = (Inr draws, st')"
    and sc: "set_column [row] i (map int draws) = Inr toks'"
    by (auto simp: sample_step_def split: prod.splits sum.splits)
  from sc have "length draws = 1" and i: "i < length row"
    by (auto simp: set_column_def split: if_splits)
  then obtain k where draws: "draws = [k]" by (cases draws) auto
  from multinomial_length [OF mu] draws obtain p where probs: "probs = [p]"
    by (cases probs) auto
  have r1: "rng st1 = rng st" using call_decoder_rng [of env "[take i row]" eo st] cd by simp
  have "multinomial_row env p (rng st) = (Inr k, rng st')"
    using mu probs draws r1 by (auto split: prod.splits sum.splits)
  moreover have "toks' = [row[i := int k]]" using sc draws i by (simp add: set_column_def)
  ultimately show ?thesis using cd sp probs by blast
qed

lemma sample_step_row:
  assumes s: "sample_step env eo T m i [row] st = (Inr toks', st')"
  shows "i < length row \<and>
     (row ! i \<noteq> m \<and> toks' = [row]
      \<or> row ! i = m \<and> (\<exists>logits st1 p k. call_decoder env [take i row] eo st = (Inr logits, st1)
           \<and> sample_probs env logits T = Inr [p]
           \<and> multinomial_row env p (rng st) = (Inr k, rng st')
           \<and> toks' = [row[i := int k]]))"
proof -
  from s obtain t where g: "get_item [row] 0 i = Inr t"
    by (auto simp: sample_step_def split: prod.splits sum.splits)
  then have i: "i < length row" and t: "t = row ! i"
    by (auto simp: get_item_def split: if_splits)
  show ?thesis
  proof (cases "row ! i = m")
    case True
    then show ?thesis using sample_step_masked [OF s] g t i by simp
  next
    case False
    then have "toks' = [row]" using s g t
      by (auto simp: sample_step_def split: prod.splits sum.splits)
    then show ?thesis using False i by simp
  qed
qed


lemma sample_steps_column:
  assumes l: "for_loop [a..<b] (sample_step env eo T m) [row] (st :: ('e, 'v, 'r) state)
                = (Inr toks', st')"
    and len: "length row = L + 1" and ab: "a \<le> b" and c: "c < a \<or> b \<le> c"
  shows "\<exists>row'. toks' = [row'] \<and> length row' = L + 1 \<and> row' ! c = row ! c"
proof -
  let ?Inv = "\<lambda>(i :: nat) x (s :: ('e, 'v, 'r) state).
      \<exists>r. x = [r] \<and> length r = L + 1 \<and> r ! c = row ! c"
  have "?Inv b toks' st'"
  proof (rule for_loop_upt_success [OF l, where Inv = ?Inv])
    show "?Inv a [row] st" using len by simp
  next
    show "a \<le> b" by (rule ab)
  next
    fix i x and s :: "('e, 'v, 'r) state" and x' s'
    assume i: "a \<le> i" "i < b" and inv: "?Inv i x s"
      and b: "sample_step env eo T m i x s = (Inr x', s')"
    from inv obtain r where x: "x = [r]" and r: "length r = L + 1" "r ! c = row ! c" by blast
    have ic: "i \<noteq> c" using i c by auto
    from sample_step_row [OF b [unfolded x]] have "x' = [r] \<or> (\<exists>k. x' = [r[i := int k]])"
      by blast
    then show "?Inv (Suc i) x' s'" using r ic by auto
  qed
  then show ?thesis by simp
qed

lemma decode_tokens_returns:
  assumes V: "0 < V"
    and dec: "\<forall>toks eo c. length toks = 1 \<longrightarrow>
            (\<exists>l0 ls c'. decoder env toks eo c = (Inr (l0 # ls), c') \<and> length l0 = V
               \<and> list_all (\<lambda>x. length x = 1) l0)"
    and mul: "\<forall>n ys rr. length ys = V \<and> I (Suc n) rr \<longrightarrow>
            (\<exists>k rr'. multinomial_row env (softmax_row env ys) rr = (Inr k, rr') \<and> I n rr'
               \<and> get_tok env (int k) \<noteq> None)"
    and len: "length row = L + 1"
    and ok: "\<forall>c. 0 < c \<and> c \<le> L \<longrightarrow> get_tok env (row ! c) \<noteq> None"
    and bud: "I L (rng (st :: ('e, 'v, 'r) state))"
  shows "\<exists>row' st'. decode_tokens env eo T m L [row] st = (Inr [row'], st')
           \<and> length row' = L + 1
           \<and> (\<forall>c. 0 < c \<and> c \<le> L \<longrightarrow> get_tok env (row' ! c) \<noteq> None)"
proof -
  let ?Inv = "\<lambda>i x s. (\<exists>row'. x = [row'] \<and> length row' = L + 1
                \<and> (\<forall>c. 0 < c \<and> c \<le> L \<longrightarrow> get_tok env (row' ! c) \<noteq> None))
              \<and> (\<exists>n. L + 1 - i \<le> n \<and> I n (rng s))"
  have "\<exists>y t. for_loop [1..<L + 1] (sample_step env eo T m) [row] st = (Inr y, t)
          \<and> ?Inv (L + 1) y t"
  proof (rule for_loop_upt_total [where Inv = ?Inv])
    show "?Inv 1 [row] st" using len ok bud by auto
  next
    fix i x and s :: "('e, 'v, 'r) state"
    assume i: "1 \<le> i" "i < L + 1" and inv: "?Inv i x s"
    then obtain r n where x: "x = [r]" and r: "length r = L + 1"
      "\<forall>c. 0 < c \<and> c \<le> L \<longrightarrow> get_tok env (r ! c) \<noteq> None"
      and n: "L + 1 - i \<le> n" "I n (rng s)" by blast
    have "0 < i" "i \<le> L" using i by auto
    from sample_step_returns [OF V dec mul r(1) this r(2) n, of eo T m]
    show "\<exists>x' s'. sample_step env eo T m i x s = (Inr x', s') \<and> ?Inv (Suc i) x' s'"
      using x by blast
  next
    show "1 \<le> L + 1" by simp
  qed
  then show ?thesis by (auto simp: decode_tokens_def simp del: upt_Suc)
qed

lemma decode_tokens_lengths:
  assumes "decode_tokens env eo T m L toks st = (Inr toks', st')"
  shows "map length toks' = map length toks"
  by (rule for_loop_success [OF assms [unfolded decode_tokens_def],
        where P = "\<lambda>x s. map length x = map length toks"])
     (auto dest: sample_step_lengths)

lemma sample_tokens_shape:
  assumes "sample_tokens env coords ps T conf dev r = (Inr toks', st)"
  shows "map length toks' = [length coords + 1]"
proof -
  from assms obtain batch m toks eo where
    it: "init_tokens env (length coords) ps = Inr (m, toks)" and
    d: "decode_tokens env eo T m (length coords) toks
          (snd (call_encoder env batch (init_state r))) = (Inr toks', st)"
    by (rule sample_tokens_InrE)
  from init_tokens_shape [OF it] decode_tokens_lengths [OF d] show ?thesis by auto
qed

lemma init_tokens_start:
  assumes "init_tokens env L ps = Inr (m, t)"
  shows "\<exists>row. t = [row] \<and> length row = L + 1 \<and> get_idx env ''<cath>'' = Some (row ! 0)"
proof -
  from assms obtain cath row0 where c: "get_idx env ''<cath>'' = Some cath"
    and r0: "row0 = (replicate (1 + L) m)[0 := cath]"
    and w: "case ps of None \<Rightarrow> t = [row0] | Some qs \<Rightarrow> write_partial env 0 qs [row0] = Inr t"
    by (auto simp: init_tokens_def set_item_def split: option.splits sum.splits if_splits)
  show ?thesis
  proof (cases ps)
    case None
    then show ?thesis using w c r0 by simp
  next
    case (Some qs)
    then have wp: "write_partial env 0 qs [row0] = Inr t" using w by simp
    from write_partial_shape [OF wp] obtain row where t: "t = [row]"
      and len: "length row = length row0" by blast
    have "t ! 0 ! 0 = row0 ! 0" by (rule write_partial_other [OF wp]) simp
    then show ?thesis using t len c r0 by simp
  qed
qed

lemma sample_tokens_start:
  assumes "sample_tokens env coords ps T conf dev r = (Inr toks', st)"
  shows "get_idx env ''<cath>'' = Some (toks' ! 0 ! 0)"
proof -
  from assms obtain batch m toks eo where
    it: "init_tokens env (length coords) ps = Inr (m, toks)" and
    d: "decode_tokens env eo T m (length coords) toks
          (snd (call_encoder env batch (init_state r))) = (Inr toks', st)"
    by (rule sample_tokens_InrE)
  from init_tokens_start [OF it] obtain row where row: "toks = [row]"
    "length row = length coords + 1" "get_idx env ''<cath>'' = Some (row ! 0)" by blast
  from sample_steps_column [OF d [unfolded decode_tokens_def row(1)] row(2), of 0]
  obtain row' where "toks' = [row']" "row' ! 0 = row ! 0" by auto
  then show ?thesis using row(3) by simp
qed

lemma sample_symbols:
  assumes "fst (sample env coords ps T conf dev r) = Inr s"
  shows "\<exists>toks' syms. fst (sample_tokens env coords ps T conf dev r) = Inr toks'
           \<and> length (toks' ! 0) = length coords + 1
           \<and> get_idx env ''<cath>'' = Some (toks' ! 0 ! 0)
           \<and> symbols_of env (drop 1 (toks' ! 0)) = Inr syms
           \<and> length syms = length coords
           \<and> (\<forall>q<length coords. get_tok env (toks' ! 0 ! (q + 1)) = Some (syms ! q))
           \<and> s = concat syms"
proof -
  obtain res st where e: "sample_tokens env coords ps T conf dev r = (res, st)"
    by (cases "sample_tokens env coords ps T conf dev r")
  from assms e obtain toks' where res: "res = Inr toks'"
    and s: "row_to_string env toks' 0 = Inr s"
    by (cases res) (auto simp: sample_eq)
  from sample_tokens_shape [OF e [unfolded res]] have len: "length (toks' ! 0) = length coords + 1"
    by (cases toks') auto
  from row_to_string_nth [OF s] obtain syms where
    b: "s = concat syms" "length syms = length (toks' ! 0) - 1"
      "\<forall>p. p + 1 < length (toks' ! 0) \<longrightarrow> get_tok env (toks' ! 0 ! (p + 1)) = Some (syms ! p)"
    by blast
  from s obtain syms' where sy: "symbols_of env (drop 1 (toks' ! 0)) = Inr syms'"
    and s': "s = concat syms'"
    by (auto simp: row_to_string_def split: if_splits sum.splits)
  from symbols_of_nth [OF sy] have
    "length syms' = length coords"
    "\<forall>q<length coords. get_tok env (toks' ! 0 ! (q + 1)) = Some (syms' ! q)"
    using len by (auto simp: add.commute)
  moreover have "get_idx env ''<cath>'' = Some (toks' ! 0 ! 0)"
    by (rule sample_tokens_start [OF e [unfolded res]])
  ultimately show ?thesis using e res len sy s' by auto
qed

lemma length_concat_singletons:
  "list_all (\<lambda>sym. length sym = 1) syms \<Longrightarrow> length (concat syms) = length syms"
  by (induction syms) auto

lemma test_softmax_positive:
  assumes "k < length ys"
  shows "0 < test_softmax ys ! k"
proof -
  have "ys \<noteq> []" using assms by auto
  then obtain y ys' where ys: "ys = y # ys'" by (cases ys) auto
  have "0 \<le> sum_list (map exp ys')" by (rule sum_list_nonneg) auto
  then have "0 < sum_list (map exp ys)" using ys by (simp add: add_pos_nonneg)
  then show ?thesis using assms by (simp add: test_softmax_def)
qed

lemma test_multinomial_draws:
  assumes "length ys = 4" and "Suc n \<le> length rr" and "list_all (\<lambda>k. k < 4) rr"
  shows "\<exists>k rr'. test_multinomial (test_softmax ys) rr = (Inr k, rr')
           \<and> n \<le> length rr' \<and> list_all (\<lambda>k. k < 4) rr'
           \<and> vocab_get_tok test_vocab (int k) \<noteq> None"
proof -
  from assms(2) obtain k ks where rr: "rr = k # ks" by (cases rr) auto
  have k: "k < 4" and ks: "list_all (\<lambda>k. k < 4) ks" "n \<le> length ks"
    using assms(2,3) rr by auto
  have "k < length (test_softmax ys)" using k assms(1) by (simp add: test_softmax_def)
  moreover have "0 < test_softmax ys ! k" using k assms(1) by (intro test_softmax_positive) simp
  ultimately have "test_multinomial (test_softmax ys) rr = (Inr k, ks)"
    by (simp add: test_multinomial_def rr)
  moreover have "vocab_get_tok test_vocab (int k) \<noteq> None"
    using k by (simp add: vocab_get_tok_def test_vocab_def)
  ultimately show ?thesis using ks by blast
qed

lemma run_sample_tokens_free:
  "fst (sample_tokens test_env (test_coords 2) None 1 None None [1, 2]) = Inr [[0, 1, 2]]"
  by (simp add: token_defs eval_defs)

text \<open>
  Claim C2, as amended. The string returned by \<^verbatim>\<open>sample\<close> is made from the buffer at the
  end of the decoding loop, which has \<open>1 + L\<close> columns: it is the concatenation of the
  \<open>L\<close> symbols the vocabulary gives for the columns \<open>1 .. L\<close> (column 0, which holds the
  index of the start symbol \<^verbatim>\<open><cath>\<close>, is left out). Its length is the sum of the lengths of these symbols, which is \<open>L\<close>
  when each of them is one character long. And \<^verbatim>\<open>sample\<close> does return, for every
  temperature and every \<open>L\<close>, when the collaborators do not fail: the converter and the
  encoder return, the vocabulary knows the two special symbols, the symbols of the
  partial sequence (which is no longer than \<open>L\<close>) and every index that is drawn, the
  decoder returns logits over \<open>V > 0\<close> symbols for one time step whenever the prefix has
  one row, and the random generator can make \<open>L\<close> draws from \<open>V\<close> weights (\<open>I n r\<close>: in the
  state \<open>r\<close> the generator can make \<open>n\<close> more draws).
\<close>

theorem sample_returns_L_symbols:
  "(\<forall>s. fst (sample env coords ps T conf dev r) = Inr s \<longrightarrow>
      (\<exists>toks' syms. fst (sample_tokens env coords ps T conf dev r) = Inr toks'
         \<and> length (toks' ! 0) = length coords + 1
         \<and> get_idx env ''<cath>'' = Some (toks' ! 0 ! 0)
         \<and> symbols_of env (drop 1 (toks' ! 0)) = Inr syms
         \<and> length syms = length coords
         \<and> (\<forall>q<length coords. get_tok env (toks' ! 0 ! (q + 1)) = Some (syms ! q))
         \<and> s = concat syms
         \<and> length s = sum_list (map length syms)
         \<and> (list_all (\<lambda>sym. length sym = 1) syms \<longrightarrow> length s = length coords)))
   \<and> ((\<exists>batch eo. batch_converter env [(coords, conf)] dev = Inr batch
                   \<and> encoder env batch = Inr eo)
       \<and> get_idx env ''<mask>'' \<noteq> None \<and> get_idx env ''<cath>'' \<noteq> None
       \<and> (\<forall>c k. get_idx env c = Some k \<longrightarrow> get_tok env k \<noteq> None)
       \<and> (case ps of None \<Rightarrow> True
           | Some qs \<Rightarrow> length qs \<le> length coords \<and> (\<forall>c\<in>set qs. get_idx env c \<noteq> None))
       \<and> 0 < V
       \<and> (\<forall>toks eo c. length toks = 1 \<longrightarrow>
             (\<exists>l0 ls c'. decoder env toks eo c = (Inr (l0 # ls), c') \<and> length l0 = V
                \<and> list_all (\<lambda>x. length x = 1) l0))
       \<and> I (length coords) r
       \<and> (\<forall>n ys rr. length ys = V \<and> I (Suc n) rr \<longrightarrow>
             (\<exists>k rr'. multinomial_row env (softmax_row env ys) rr = (Inr k, rr') \<and> I n rr'
                \<and> get_tok env (int k) \<noteq> None))
       \<longrightarrow> (\<exists>s. fst (sample env coords ps T conf dev r) = Inr s))"
proof (intro conjI allI impI)
  fix s
  assume "fst (sample env coords ps T conf dev r) = Inr s"
  from sample_symbols [OF this] obtain toks' syms where
    a: "fst (sample_tokens env coords ps T conf dev r) = Inr toks'"
      "length (toks' ! 0) = length coords + 1"
      "symbols_of env (drop 1 (toks' ! 0)) = Inr syms"
      "length syms = length coords"
      "\<forall>q<length coords. get_tok env (toks' ! 0 ! (q + 1)) = Some (syms ! q)"
      "s = concat syms"
      "get_idx env ''<cath>'' = Some (toks' ! 0 ! 0)"
    by blast
  have "length s = sum_list (map length syms)" using a(6) by (simp add: length_concat)
  moreover have "list_all (\<lambda>sym. length sym = 1) syms \<longrightarrow> length s = length coords"
    using a(4,6) length_concat_singletons [of syms] by simp
  ultimately show "\<exists>toks' syms. fst (sample_tokens env coords ps T conf dev r) = Inr toks'
         \<and> length (toks' ! 0) = length coords + 1
         \<and> get_idx env ''<cath>'' = Some (toks' ! 0 ! 0)
         \<and> symbols_of env (drop 1 (toks' ! 0)) = Inr syms
         \<and> length syms = length coords
         \<and> (\<forall>q<length coords. get_tok env (toks' ! 0 ! (q + 1)) = Some (syms ! q))
         \<and> s = concat syms
         \<and> length s = sum_list (map length syms)
         \<and> (list_all (\<lambda>sym. length sym = 1) syms \<longrightarrow> length s = length coords)"
    using a by blast
next
  assume h: "(\<exists>batch eo. batch_converter env [(coords, conf)] dev = Inr batch
                   \<and> encoder env batch = Inr eo)
       \<and> get_idx env ''<mask>'' \<noteq> None \<and> get_idx env ''<cath>'' \<noteq> None
       \<and> (\<forall>c k. get_idx env c = Some k \<longrightarrow> get_tok env k \<noteq> None)
       \<and> (case ps of None \<Rightarrow> True
           | Some qs \<Rightarrow> length qs \<le> length coords \<and> (\<forall>c\<in>set qs. get_idx env c \<noteq> None))
       \<and> 0 < V
       \<and> (\<forall>toks eo c. length toks = 1 \<longrightarrow>
             (\<exists>l0 ls c'. decoder env toks eo c = (Inr (l0 # ls), c') \<and> length l0 = V
                \<and> list_all (\<lambda>x. length x = 1) l0))
       \<and> I (length coords) r
       \<and> (\<forall>n ys rr. length ys = V \<and> I (Suc n) rr \<longrightarrow>
             (\<exists>k rr'. multinomial_row env (softmax_row env ys) rr = (Inr k, rr') \<and> I n rr'
                \<and> get_tok env (int k) \<noteq> None))"
  then obtain batch eo where bc: "batch_converter env [(coords, conf)] dev = Inr batch"
    and enc: "encoder env batch = Inr eo" by blast
  from h have mask: "get_idx env ''<mask>'' \<noteq> None" and cath: "get_idx env ''<cath>'' \<noteq> None"
    and voc: "\<forall>c k. get_idx env c = Some k \<longrightarrow> get_tok env k \<noteq> None"
    and ps: "case ps of None \<Rightarrow> True
           | Some qs \<Rightarrow> length qs \<le> length coords \<and> (\<forall>c\<in>set qs. get_idx env c \<noteq> None)"
    and V: "0 < V"
    and dec: "\<forall>toks eo c. length toks = 1 \<longrightarrow>
             (\<exists>l0 ls c'. decoder env toks eo c = (Inr (l0 # ls), c') \<and> length l0 = V
                \<and> list_all (\<lambda>x. length x = 1) l0)"
    and bud: "I (length coords) r"
    and mul: "\<forall>n ys rr. length ys = V \<and> I (Suc n) rr \<longrightarrow>
             (\<exists>k rr'. multinomial_row env (softmax_row env ys) rr = (Inr k, rr') \<and> I n rr'
                \<and> get_tok env (int k) \<noteq> None)"
    by blast+
  from init_tokens_total [OF mask cath ps] obtain m toks where
    it: "init_tokens env (length coords) ps = Inr (m, toks)" by blast
  from init_tokens_known [OF it voc] obtain row where row: "toks = [row]"
    "length row = length coords + 1"
    "\<forall>c. 0 < c \<and> c \<le> length coords \<longrightarrow> get_tok env (row ! c) \<noteq> None"
    by blast
  let ?st = "snd (call_encoder env batch (init_state r))"
  have "I (length coords) (rng ?st)" using bud by (simp add: call_encoder_def init_state_def)
  from decode_tokens_returns [OF V dec mul row(2,3) this, of eo T m]
  obtain row' st' where
    d: "decode_tokens env eo T m (length coords) [row] ?st = (Inr [row'], st')"
    and r': "length row' = length coords + 1"
      "\<forall>c. 0 < c \<and> c \<le> length coords \<longrightarrow> get_tok env (row' ! c) \<noteq> None"
    by blast
  have "list_all (\<lambda>a. get_tok env a \<noteq> None) (drop 1 row')"
    using r' by (auto simp: list_all_length)
  then have "\<exists>s. row_to_string env [row'] 0 = Inr s"
    by (simp add: row_to_string_def symbols_of_def)
  moreover have "sample_tokens env coords ps T conf dev r = (Inr [row'], st')"
    using bc it enc row(1) d by (simp add: sample_tokens_def call_encoder_def)
  ultimately show "\<exists>s. fst (sample env coords ps T conf dev r) = Inr s"
    by (auto simp: sample_eq)
qed

theorem sample_returns_L_symbols_witness:
  "fst (sample test_env (test_coords 2) None 1 None None [1, 2]) = Inr ''AC''
   \<and> fst (sample_tokens test_env (test_coords 2) None 1 None None [1, 2]) = Inr [[0, 1, 2]]
   \<and> length ([[0, 1, 2]] ! 0 :: int list) = length (test_coords 2) + 1
   \<and> get_idx test_env ''<cath>'' = Some ([[0, 1, 2]] ! 0 ! 0)
   \<and> symbols_of test_env (drop 1 ([[0, 1, 2]] ! 0)) = Inr [''A'', ''C'']
   \<and> list_all (\<lambda>sym. length sym = 1) [''A'', ''C'']
   \<and> length ''AC'' = length (test_coords 2)
   \<and> (\<exists>s. fst (sample test_env (test_coords 2) None 1 None None [1, 2]) = Inr s)
   \<and> batch_converter test_env [(test_coords 2, None)] None = Inr 1
   \<and> encoder test_env 1 = Inr [(''encoder_out'', 1), (''encoder_padding_mask'', 1)]
   \<and> get_idx test_env ''<mask>'' = Some 3 \<and> get_idx test_env ''<cath>'' = Some 0
   \<and> decoder test_env [[0]] [(''encoder_out'', 1), (''encoder_padding_mask'', 1)] []
       = (Inr [[[0], [0], [0], [0]]], [(''calls'', 1)])
   \<and> multinomial_row test_env (softmax_row test_env [0, 0, 0, 0]) [1, 2] = (Inr 1, [2])"
proof -
  note a = sample_returns_L_symbols [where env = test_env and coords = "test_coords 2"
      and ps = None and T = 1 and conf = None and dev = None and r = "[1, 2]" and V = 4
      and I = "\<lambda>n r. n \<le> length r \<and> list_all (\<lambda>k. k < 4) r"]
  have s: "fst (sample test_env (test_coords 2) None 1 None None [1, 2]) = Inr ''AC''"
    unfolding run_sample_free by simp
  have len: "length (test_coords 2) = 2" by (simp add: test_coords_def)
  have y: "symbols_of test_env (drop 1 ([[0, 1, 2]] ! 0)) = Inr [''A'', ''C'']"
    by (simp add: symbols_of_def test_defs)
  have h1: "\<exists>batch eo. batch_converter test_env [(test_coords 2, None)] None = Inr batch
              \<and> encoder test_env batch = Inr eo"
    by (simp add: test_env_def)
  have h2: "get_idx test_env ''<mask>'' \<noteq> None \<and> get_idx test_env ''<cath>'' \<noteq> None"
    by (simp add: test_defs)
  have h3: "\<forall>c k. get_idx test_env c = Some k \<longrightarrow> get_tok test_env k \<noteq> None"
    using vocab_round_trip by (fastforce simp: test_env_def)
  have h4: "\<forall>toks eo c. length toks = 1 \<longrightarrow>
             (\<exists>l0 ls c'. decoder test_env toks eo c = (Inr (l0 # ls), c') \<and> length l0 = 4
                \<and> list_all (\<lambda>x. length x = 1) l0)"
    by (simp add: test_env_def test_decoder_def)
  have h5: "2 \<le> length [1, 2 :: nat] \<and> list_all (\<lambda>k. k < 4) [1, 2 :: nat]" by simp
  have h6: "\<forall>n ys rr. length ys = 4 \<and> (Suc n \<le> length rr \<and> list_all (\<lambda>k. k < 4) rr) \<longrightarrow>
             (\<exists>k rr'. multinomial_row test_env (softmax_row test_env ys) rr = (Inr k, rr')
                \<and> (n \<le> length rr' \<and> list_all (\<lambda>k. k < 4) rr')
                \<and> get_tok test_env (int k) \<noteq> None)"
    using test_multinomial_draws by (simp add: test_env_def)
  have r: "\<exists>s. fst (sample test_env (test_coords 2) None 1 None None [1, 2]) = Inr s"
    using a h1 h2 h3 h4 h5 h6 unfolding len by simp
  from a s have "\<exists>toks' syms. fst (sample_tokens test_env (test_coords 2) None 1 None None [1, 2])
         = Inr toks'
       \<and> get_idx test_env ''<cath>'' = Some (toks' ! 0 ! 0)
       \<and> symbols_of test_env (drop 1 (toks' ! 0)) = Inr syms
       \<and> (list_all (\<lambda>sym. length sym = 1) syms \<longrightarrow> length ''AC'' = length (test_coords 2))"
    by blast
  then have l: "length ''AC'' = length (test_coords 2)"
    and c: "get_idx test_env ''<cath>'' = Some ([[0, 1, 2]] ! 0 ! 0)"
    unfolding run_sample_tokens_free using y by auto
  have i: "batch_converter test_env [(test_coords 2, None)] None = Inr 1"
    "encoder test_env 1 = Inr [(''encoder_out'', 1), (''encoder_padding_mask'', 1)]"
    "get_idx test_env ''<mask>'' = Some 3" "get_idx test_env ''<cath>'' = Some 0"
    "decoder test_env [[0]] [(''encoder_out'', 1), (''encoder_padding_mask'', 1)] []
       = (Inr [[[0], [0], [0], [0]]], [(''calls'', 1)])"
    "multinomial_row test_env (softmax_row test_env [0, 0, 0, 0]) [1, 2] = (Inr 1, [2])"
    by (simp_all add: test_defs eval_nat_numeral)
  show ?thesis using s run_sample_tokens_free len y l r c i by simp
qed

text \<open>
  The claim as stated fails when a symbol of several characters is drawn: nothing keeps
  the special symbols of the vocabulary out of the draw.
\<close>

theorem special_symbol_sampled:
  "(1::nat) \<le> length (test_coords 1) \<and> (0::real) < 1
   \<and> fst (sample test_env (test_coords 1) None 1 None None [0]) = Inr ''<cath>''
   \<and> length ''<cath>'' \<noteq> length (test_coords 1)
   \<and> fst (sample_tokens test_env (test_coords 1) None 1 None None [0]) = Inr [[0, 0]]
   \<and> symbols_of test_env (drop 1 [0, 0]) = Inr [''<cath>'']"
proof -
  have a: "(1::nat) \<le> length (test_coords 1) \<and> (0::real) < 1
      \<and> fst (sample test_env (test_coords 1) None 1 None None [0]) = Inr ''<cath>''
      \<and> length ''<cath>'' \<noteq> length (test_coords 1)"
    unfolding run_sample_special by (simp add: test_coords_def)
  have b: "fst (sample_tokens test_env (test_coords 1) None 1 None None [0]) = Inr [[0, 0]]"
    by (simp add: token_defs eval_defs)
  have c: "symbols_of test_env (drop 1 [0, 0]) = Inr [''<cath>'']"
    by (simp add: symbols_of_def test_defs)
  show ?thesis using a b c by simp
qed

subsection \<open>Temperatures that are not positive\<close>

lemma sample_step_cache:
  "incremental_state (snd (sample_step env eo T m i toks st))
     = snd (decoder env (map (take i) toks) eo (incremental_state st))"
proof -
  obtain res c' where d: "decoder env (map (take i) toks) eo (incremental_state st) = (res, c')"
    by (cases "decoder env (map (take i) toks) eo (incremental_state st)")
  obtain r st' where s: "sample_step env eo T m i toks st = (r, st')"
    by (cases "sample_step env eo T m i toks st")
  have "incremental_state st' = c'"
    using s d
    by (auto simp: sample_step_def call_decoder_def split: prod.splits sum.splits if_splits
        dest!: multinomial_frame')
  then show ?thesis using s d by simp
qed

lemma decode_state:
  "snd (decode env eo T m L toks st)
     = snd (for_loop [1..<L + 1] (sample_step env eo T m) toks st)"
proof -
  obtain res s' where "for_loop [1..<L + 1] (sample_step env eo T m) toks st = (res, s')"
    by (cases "for_loop [1..<L + 1] (sample_step env eo T m) toks st")
  then show ?thesis by (cases res) (simp_all add: decode_def del: upt_Suc)
qed

lemma decode_first_call:
  assumes "0 < L"
  shows "\<exists>rest. calls (snd (decode env eo T m L toks st))
           = calls st @ DecoderCall (map (take 1) toks) eo (incremental_state st)
                          (snd (decoder env (map (take 1) toks) eo (incremental_state st)))
                        # rest"
proof -
  have u: "[1..<L + 1] = 1 # [2..<L + 1]"
    using assms upt_conv_Cons [of 1 "L + 1"] by (simp add: numeral_2_eq_2 del: upt_Suc)
  obtain r1 st1 where s: "sample_step env eo T m 1 toks st = (r1, st1)"
    by (cases "sample_step env eo T m 1 toks st")
  have c1: "calls st1 = calls st @ [DecoderCall (map (take 1) toks) eo (incremental_state st)
                                     (snd (decoder env (map (take 1) toks) eo (incremental_state st)))]"
    using sample_step_calls' [OF s] sample_step_cache [of env eo T m 1 toks st] s by simp
  have f0: "snd (decode env eo T m L toks st)
      = snd (for_loop (1 # [2..<L + 1]) (sample_step env eo T m) toks st)"
    by (simp only: decode_state u)
  show ?thesis
  proof (cases r1)
    case (Inl e)
    then have "snd (decode env eo T m L toks st) = st1"
      using s f0 by (simp del: upt_Suc)
    then show ?thesis using c1 by simp
  next
    case (Inr toks1)
    then have f: "snd (decode env eo T m L toks st)
             = snd (for_loop [2..<L + 1] (sample_step env eo T m) toks1 st1)"
      using s f0 by (simp del: upt_Suc)
    have "decoder_trace (\<lambda>a. a = eo) st1
            (snd (for_loop [2..<L + 1] (sample_step env eo T m) toks1 st1))"
      by (rule for_loop_decoder_trace) (rule sample_step_trace)
    then obtain ds where "calls (snd (decode env eo T m L toks st)) = calls st1 @ ds"
      using f by (auto simp: decoder_trace_def)
    then show ?thesis using c1 by simp
  qed
qed

text \<open>
  Claim C4, as amended. The temperature is not checked: it is first used at line 143,
  after the decoder call of step 1. So for a temperature that is zero or negative, as
  for any other, when the converter, the initialisation of the buffer and the encoder
  succeed and \<open>L \<ge> 1\<close>, the decoder is called on the prefix of one column with the empty
  cache before the temperature has any effect.
\<close>

theorem decoder_called_before_temperature_is_used:
  assumes "temperature \<le> 0" and "coords \<noteq> []"
    and "batch_converter env [(coords, conf)] dev = Inr batch"
    and "init_tokens env (length coords) ps = Inr (m, toks)"
    and "encoder env batch = Inr eo"
  shows "\<exists>rest. calls (snd (sample env coords ps temperature conf dev r))
           = EncoderCall
             # DecoderCall (map (take 1) toks) eo [] (snd (decoder env (map (take 1) toks) eo []))
             # rest"
proof -
  let ?st = "snd (call_encoder env batch (init_state r))"
  have "snd (sample env coords ps temperature conf dev r)
          = snd (decode env eo temperature m (length coords) toks ?st)"
    using assms(3,4,5) by (simp add: sample_def call_encoder_def)
  moreover have "0 < length coords" using assms(2) by simp
  ultimately show ?thesis
    using decode_first_call [of "length coords" env eo temperature m toks ?st]
    by (simp add: call_encoder_def init_state_def)
qed

theorem decoder_called_before_temperature_is_used_witness:
  "(- 2 :: real) \<le> 0 \<and> test_coords 1 \<noteq> []
   \<and> batch_converter test_env [(test_coords 1, None)] None = Inr 1
   \<and> init_tokens test_env (length (test_coords 1)) None = Inr (3, [[0, 3]])
   \<and> encoder test_env 1 = Inr [(''encoder_out'', 1), (''encoder_padding_mask'', 1)]
   \<and> calls (snd (sample test_env (test_coords 1) None (- 2) None None [2]))
       = [EncoderCall,
          DecoderCall [[0]] [(''encoder_out'', 1), (''encoder_padding_mask'', 1)]
            [] [(''calls'', 1)]]"
proof -
  have h: "(- 2 :: real) \<le> 0" "test_coords 1 \<noteq> []"
    "batch_converter test_env [(test_coords 1, None)] None = Inr 1"
    "init_tokens test_env (length (test_coords 1)) None = Inr (3, [[0, 3]])"
    "encoder test_env 1 = Inr [(''encoder_out'', 1), (''encoder_padding_mask'', 1)]"
    by (simp_all add: eval_defs)
  note a = decoder_called_before_temperature_is_used [OF h, of "[2]"]
  show ?thesis using a h unfolding run_sample_negative2 by simp
qed

text \<open>
  The claim as stated fails: with the temperature \<open>- 1\<close> the call below invokes the decoder
  and returns a sequence.
\<close>

theorem negative_temperature_accepted:
  "(- 1 :: real) \<le> 0
   \<and> sample test_env (test_coords 1) None (- 1) None None [1]
       = (Inr ''A'',
          \<lparr>incremental_state = [(''calls'', 1)], rng = [],
           calls = [EncoderCall,
             DecoderCall [[0]] [(''encoder_out'', 1), (''encoder_padding_mask'', 1)]
               [] [(''calls'', 1)]]\<rparr>)"
  using run_sample_negative by simp

subsection \<open>sample_batch2 against sample\<close>

text \<open>
  Claim C5. For one sample the two methods receive the same logits from the decoder
  (shape 1 by 4 by 1 here), but they do not compute the same distribution. \<^verbatim>\<open>sample\<close>
  takes \<^verbatim>\<open>logits[0]\<close> and transposes it, so its softmax runs over the vocabulary: one row
  of four probabilities. \<^verbatim>\<open>sample_batch2\<close> transposes the first two dimensions of the
  whole tensor, so its softmax runs over the time axis of length one: four rows holding
  the probability 1 each. The draw of \<^verbatim>\<open>sample_batch2\<close> then has four elements, which do
  not fit the one element of \<^verbatim>\<open>sampled_tokens[j:j+1, i]\<close>: the method raises where
  \<^verbatim>\<open>sample\<close> returns a sequence.
\<close>

theorem sample_batch2_softmax_over_time_axis:
  "fst (test_decoder [[0]] [(''encoder_out'', 1), (''encoder_padding_mask'', 1)] [])
     = Inr [[[0], [0], [0], [0]]]
   \<and> sample_probs test_env [[[0], [0], [0], [0]]] 1 = Inr [[1 / 4, 1 / 4, 1 / 4, 1 / 4]]
   \<and> batch2_probs test_env [[[0], [0], [0], [0]]] 1 = [[[1]], [[1]], [[1]], [[1]]]
   \<and> select_dim1 (batch2_probs test_env [[[0], [0], [0], [0]]] 1) 0 = Inr [[1], [1], [1], [1]]
   \<and> fst (sample test_env (test_coords 1) None 1 None None [0]) = Inr ''<cath>''
   \<and> fst (sample_batch2 test_env (test_coords 1) 1 None 1 None (Some ''cpu'')
             [0, 0, 0, 0, 0, 0, 0, 0]) = Inl RuntimeError"
  unfolding run_sample_special run_sample_batch2_free
  by (simp add: test_defs sample_probs_def batch2_probs_def select_dim1_def)

subsection \<open>The mask symbol in a partial sequence\<close>
















end
